theory Spec2Isabelle
  imports Main "HOL-Library.Word" "HOL-Library.Char_ord" "HOL-Library.List_Lexorder"
begin

section \<open>The handle lifetime manager of \<open>ts/tensor.go\<close>\<close>

text \<open>
  The file wraps handles of a native tensor engine in Go objects. The engine, the
  \<open>gotch\<close> package and the helpers of package \<open>ts\<close> that live in other files are not
  part of \<open>tensor.go\<close>; what they answer is a parameter of the model (the record \<open>env\<close>).
  Go's \<open>int\<close>, \<open>uint\<close>, \<open>int64\<close> and \<open>uint64\<close> are 64-bit words, \<open>int32\<close> a 32-bit word.
\<close>

subsection \<open>Data\<close>

type_synonym int64 = "64 word"
type_synonym uint64 = "64 word"
type_synonym uint = "64 word"
type_synonym int32 = "32 word"

text \<open>\<open>lib.Ctensor\<close> is a C pointer; address 0 is Go's \<open>nil\<close>.\<close>

type_synonym Ctensor = nat

definition nil :: Ctensor where
  "nil = 0"

text \<open>\<open>gotch.DType\<close> is an integer kind.\<close>

type_synonym DType = int

text \<open>
  \<open>type Tensor struct\<close>. The field \<open>d\<close> (100k bytes that force the object onto the
  heap) carries no information and is left out.
\<close>

record Tensor =
  name :: string
  ctensor :: Ctensor
  calledFrom :: string

text \<open>The calls into the engine (\<open>lib.At...\<close>) that the modelled functions make.\<close>

datatype native_call =
    CallAtDim Ctensor
  | CallAtShape Ctensor
  | CallAtDefined Ctensor
  | CallAtScalarType Ctensor
  | CallAtFree Ctensor
  | CallAtCopyData Ctensor uint uint
  | CallAtTensorOfData "int64 list" uint int32

text \<open>The lines written by \<open>log.Printf\<close>.\<close>

datatype log_line =
    InfoAdded string int64
  | InfoReleased string int64
  | WarnDoubleFree string string

text \<open>Go \<open>error\<close> values: what \<open>TorchErr()\<close> returns and what \<open>fmt.Errorf\<close> builds.\<close>

datatype error =
    TorchError string
  | HelperError string
  | InvalidDim uint64
  | ReleaseFailed string error
  | CopyDataUint8TooShort int uint
  | CopyDataTooShort int uint
  | CopyDataTypeMismatch DType DType
  | DataShapeMismatch DType int "int64 list"

text \<open>
  A call either returns, or ends the process (\<open>log.Fatal\<close>), or panics (an index out
  of range), or waits for ever on the mutex (a \<open>sync.Mutex\<close> is not reentrant, and the
  model is sequential).
\<close>

datatype 'a outcome = Return 'a | Fatal error | Panic | Blocked

text \<open>
  The package-level variables \<open>TensorCount\<close>, \<open>AllocatedMem\<close>, \<open>ExistingTensors\<close> and
  \<open>lock\<close>, together with what the process has written to the log and the calls it has
  made into the engine. \<open>ExistingTensors\<close> is a \<open>map[string]struct{}\<close>, Go's idiom for a
  set of strings.
\<close>

record state =
  TensorCount :: int64
  AllocatedMem :: int64
  ExistingTensors :: "string set"
  lock :: bool
  logged :: "log_line list"
  calls :: "native_call list"

text \<open>
  What lies outside \<open>tensor.go\<close>. Every answer of the engine may depend on the calls
  made so far (the first argument). The \<open>...Err\<close> fields are what \<open>TorchErr()\<close> reports
  right after the call. \<open>MapRange\<close> is the order in which \<open>for n := range m\<close> visits the
  keys of a map, which Go leaves open; \<open>Quote\<close> is \<open>strconv.Quote\<close>, the rendering of a
  string under the verb \<open>%q\<close>.
\<close>

record env =
  Debug :: bool
  AtDim :: "native_call list \<Rightarrow> Ctensor \<Rightarrow> uint64"
  AtShape :: "native_call list \<Rightarrow> Ctensor \<Rightarrow> nat \<Rightarrow> int64"
  AtShapeErr :: "native_call list \<Rightarrow> Ctensor \<Rightarrow> string option"
  AtDefined :: "native_call list \<Rightarrow> Ctensor \<Rightarrow> bool"
  AtDefinedErr :: "native_call list \<Rightarrow> Ctensor \<Rightarrow> string option"
  AtScalarType :: "native_call list \<Rightarrow> Ctensor \<Rightarrow> int32"
  AtFreeErr :: "native_call list \<Rightarrow> Ctensor \<Rightarrow> string option"
  AtCopyDataErr :: "native_call list \<Rightarrow> Ctensor \<Rightarrow> string option"
  CKind2DType :: "int32 \<Rightarrow> DType"
  DTypeSize :: "DType \<Rightarrow> uint"
  FlattenDim :: "int64 list \<Rightarrow> int64"
  ElementCount :: "int64 list \<Rightarrow> int64"
  DataAsPtrErr :: "int64 list \<Rightarrow> string option"
  AtTensorOfData :: "native_call list \<Rightarrow> Ctensor"
  AtTensorOfDataErr :: "native_call list \<Rightarrow> string option"
  DTypeCKind :: "DType \<Rightarrow> int32"
  Uint8 :: DType
  MapRange :: "string set \<Rightarrow> string list"
  Quote :: "string \<Rightarrow> string"

definition call :: "native_call \<Rightarrow> state \<Rightarrow> state" where
  "call c s = s\<lparr>calls := calls s @ [c]\<rparr>"

subsection \<open>\<open>Size\<close>\<close>

text \<open>
  \<open>decodeSize\<close> reads \<open>nsize\<close> 64-bit values from the C buffer at \<open>ptr\<close>; the buffer is
  the function from slot number to value. The result is \<open>make([]int64, nsize)\<close> filled
  by \<open>binary.Read\<close> from a reader of exactly \<open>nsize * 8\<close> bytes, so the read does not fail
  and the \<open>log.Fatal\<close> after it is not reached. The slice expression of line 355 panics
  when \<open>nsize * 8\<close> exceeds \<open>2 ^ 30\<close>; the only caller modelled, \<open>Size\<close>, calls with
  \<open>nsize \<le> 100\<close>.
\<close>

definition decodeSize :: "(nat \<Rightarrow> int64) \<Rightarrow> uint64 \<Rightarrow> int64 list" where
  "decodeSize ptr nsize = map ptr [0 ..< unat nsize]"

text \<open>
  \<open>func (ts *Tensor) Size() ([]int64, error)\<close>. \<open>dim\<close> is a \<open>uint64\<close>, so \<open>dim < 0\<close> is
  the unsigned comparison. \<open>DataAsPtr\<close> copies the zeroed slice \<open>sz\<close> to C memory and
  may fail; \<open>lib.AtShape\<close> then fills that buffer.
\<close>

definition Size :: "env \<Rightarrow> Tensor \<Rightarrow> state \<Rightarrow> (error + int64 list) \<times> state" where
  "Size env ts s =
     (let dim = AtDim env (calls s) (ctensor ts);
          s1 = call (CallAtDim (ctensor ts)) s
      in if dim < 0 \<or> dim > 100 then (Inl (InvalidDim dim), s1)
         else (case DataAsPtrErr env (replicate (unat dim) 0) of
                 Some e \<Rightarrow> (Inl (HelperError e), s1)
               | None \<Rightarrow>
                   (let s2 = call (CallAtShape (ctensor ts)) s1
                    in case AtShapeErr env (calls s1) (ctensor ts) of
                         Some e \<Rightarrow> (Inl (TorchError e), s2)
                       | None \<Rightarrow> (Inr (decodeSize (AtShape env (calls s1) (ctensor ts)) dim), s2))))"


subsection \<open>The mutex\<close>

definition Lock :: "state \<Rightarrow> state option" where
  "Lock s = (if lock s then None else Some (s\<lparr>lock := True\<rparr>))"

definition Unlock :: "state \<Rightarrow> state" where
  "Unlock s = s\<lparr>lock := False\<rparr>"

text \<open>Sequencing of calls that may not return.\<close>

fun obind :: "'a outcome \<Rightarrow> ('a \<Rightarrow> 'b outcome) \<Rightarrow> 'b outcome" where
  "obind (Return x) f = f x"
| "obind (Fatal e) f = Fatal e"
| "obind Panic f = Panic"
| "obind Blocked f = Blocked"

subsection \<open>Formatting\<close>

definition digit :: "nat \<Rightarrow> char" where
  "digit d = ''0123456789'' ! d"

function decimal :: "nat \<Rightarrow> string" where
  "decimal n = (if n < 10 then [digit n] else decimal (n div 10) @ [digit (n mod 10)])"
  by pat_completeness auto
termination
  by (relation "measure (\<lambda>n. n)") auto

declare decimal.simps [simp del]

definition zero_pad :: "nat \<Rightarrow> string \<Rightarrow> string" where
  "zero_pad w str = replicate (w - length str) CHR ''0'' @ str"

text \<open>The verb \<open>%09d\<close> on an \<open>int64\<close>: width 9, padded with zeros, the sign first.\<close>

definition sprintf_09d :: "int64 \<Rightarrow> string" where
  "sprintf_09d v =
     (if sint v < 0 then CHR ''-'' # zero_pad 8 (decimal (nat (- sint v)))
      else zero_pad 9 (decimal (nat (sint v))))"

text \<open>The verb \<open>%v\<close> on an \<open>int64\<close>.\<close>

definition sprintf_v :: "int64 \<Rightarrow> string" where
  "sprintf_v v =
     (if sint v < 0 then CHR ''-'' # decimal (nat (- sint v)) else decimal (nat (sint v)))"

text \<open>The verb \<open>%q\<close> on a \<open>[]string\<close>: the quoted elements, separated by blanks, in brackets.\<close>

fun join_blank :: "string list \<Rightarrow> string" where
  "join_blank [] = []"
| "join_blank [x] = x"
| "join_blank (x # y # zs) = x @ '' '' @ join_blank (y # zs)"

definition sprintf_q :: "env \<Rightarrow> string list \<Rightarrow> string" where
  "sprintf_q env xs = ''['' @ join_blank (map (Quote env) xs) @ '']''"

subsection \<open>\<open>Defined\<close>, \<open>DType\<close>, \<open>Numel\<close>, \<open>nbytes\<close>\<close>

definition Defined :: "env \<Rightarrow> Tensor \<Rightarrow> state \<Rightarrow> (error + bool) \<times> state" where
  "Defined env ts s =
     (let st = AtDefined env (calls s) (ctensor ts);
          s1 = call (CallAtDefined (ctensor ts)) s
      in case AtDefinedErr env (calls s) (ctensor ts) of
           Some e \<Rightarrow> (Inl (TorchError e), s1)
         | None \<Rightarrow> (Inr st, s1))"

definition MustDefined :: "env \<Rightarrow> Tensor \<Rightarrow> state \<Rightarrow> (bool \<times> state) outcome" where
  "MustDefined env ts s =
     (case Defined env ts s of
        (Inl e, s1) \<Rightarrow> Fatal e
      | (Inr st, s1) \<Rightarrow> Return (st, s1))"

definition MustSize :: "env \<Rightarrow> Tensor \<Rightarrow> state \<Rightarrow> (int64 list \<times> state) outcome" where
  "MustSize env ts s =
     (case Size env ts s of
        (Inl e, s1) \<Rightarrow> Fatal e
      | (Inr shape, s1) \<Rightarrow> Return (shape, s1))"

definition DType :: "env \<Rightarrow> Tensor \<Rightarrow> state \<Rightarrow> DType \<times> state" where
  "DType env ts s =
     (let cint = AtScalarType env (calls s) (ctensor ts)
      in (CKind2DType env cint, call (CallAtScalarType (ctensor ts)) s))"

definition Numel :: "env \<Rightarrow> Tensor \<Rightarrow> state \<Rightarrow> (uint \<times> state) outcome" where
  "Numel env ts s =
     obind (MustDefined env ts s) (\<lambda>(st, s1).
       if \<not> st then Return (0, s1)
       else obind (MustSize env ts s1) (\<lambda>(shape, s2). Return (FlattenDim env shape, s2)))"

definition nbytes :: "env \<Rightarrow> Tensor \<Rightarrow> state \<Rightarrow> (int64 \<times> state) outcome" where
  "nbytes env ts s =
     obind (Numel env ts s) (\<lambda>(numel, s1).
       if numel = 0 then Return (0, s1)
       else (let (dt, s2) = DType env ts s1 in Return (numel * DTypeSize env dt, s2)))"

subsection \<open>Acquire: \<open>newName\<close> and \<open>newTensor\<close>\<close>

text \<open>\<open>newName\<close> reads the global \<open>TensorCount\<close>, here its second argument.\<close>

definition newName :: "string list \<Rightarrow> int64 \<Rightarrow> string" where
  "newName nameOpt tensorCount =
     (case nameOpt of
        n # rest \<Rightarrow> n
      | [] \<Rightarrow> ''tensor_'' @ sprintf_09d tensorCount)"

text \<open>
  \<open>func newTensor(ctensor lib.Ctensor, nameOpt ...string) *Tensor\<close>. The new object has
  the zero value in \<open>name\<close> and \<open>calledFrom\<close> while \<open>nbytes\<close> runs. The finalizer that
  \<open>runtime.SetFinalizer\<close> installs is a later call of \<open>freeCTensor\<close> on the object.
\<close>

definition newTensor :: "env \<Rightarrow> Ctensor \<Rightarrow> string list \<Rightarrow> state \<Rightarrow> (Tensor \<times> state) outcome" where
  "newTensor env c nameOpt s =
     (let x = \<lparr>name = [], ctensor = c, calledFrom = []\<rparr>
      in case Lock s of
           None \<Rightarrow> Blocked
         | Some s1 \<Rightarrow>
             (let s2 = s1\<lparr>TensorCount := TensorCount s1 + 1\<rparr>
              in obind
                   (if Debug env
                    then obind (nbytes env x s2) (\<lambda>(n, s3).
                           Return (s3\<lparr>AllocatedMem := AllocatedMem s3 + n,
                                       logged := logged s3 @ [InfoAdded (name x) n]\<rparr>))
                    else Return s2)
                   (\<lambda>s4.
                      let nm = newName nameOpt (TensorCount s4);
                          nm' = (if nm \<in> ExistingTensors s4
                                 then nm @ ''_'' @ sprintf_09d (TensorCount s4) else nm);
                          s5 = s4\<lparr>ExistingTensors := insert nm' (ExistingTensors s4)\<rparr>;
                          s6 = Unlock s5
                      in Return (x\<lparr>name := nm', calledFrom := ''newTensor()''\<rparr>, s6))))"

subsection \<open>The leak report: \<open>CheckCMemLeak\<close>\<close>

definition report_text :: "env \<Rightarrow> string list \<Rightarrow> int64 \<Rightarrow> string" where
  "report_text env tensors memUsed =
     ''============================= C MEMORY CHECK RESULT ==================================''
       @ [CHR 0x0A]
     @ ''C memory allocated not been released: '' @ sprintf_v memUsed @ '' bytes'' @ [CHR 0x0A]
     @ ''Tensors not been released: '' @ sprintf_q env tensors @ [CHR 0x0A]
     @ ''======================================================================================''
       @ [CHR 0x0A]"

definition CheckCMemLeak :: "env \<Rightarrow> state \<Rightarrow> (string \<times> state) outcome" where
  "CheckCMemLeak env s =
     (case Lock s of
        None \<Rightarrow> Blocked
      | Some s1 \<Rightarrow>
          (let tensors = MapRange env (ExistingTensors s1);
               memUsed = AllocatedMem s1;
               s2 = Unlock s1
           in Return (report_text env tensors memUsed, s2)))"

subsection \<open>Release: \<open>freeCTensor\<close> and \<open>Drop\<close>\<close>

text \<open>
  The block of \<open>freeCTensor\<close> under \<open>if gotch.Debug\<close> (lines 147 to 160). The error of
  \<open>Size\<close> is wrapped and dropped, and the shape is then \<open>nil\<close>.
\<close>

definition debug_release :: "env \<Rightarrow> Tensor \<Rightarrow> state \<Rightarrow> state" where
  "debug_release env ts s =
     (if Debug env
      then (let (r, s1) = Size env ts s;
                shape = (case r of Inl e \<Rightarrow> [] | Inr sh \<Rightarrow> sh);
                numel = FlattenDim env shape;
                (dtype, s2) = DType env ts s1;
                nb = numel * DTypeSize env dtype
            in s2\<lparr>AllocatedMem := AllocatedMem s2 - nb,
                    logged := logged s2 @ [InfoReleased (name ts) nb]\<rparr>)
      else s)"

text \<open>
  The part of \<open>freeCTensor\<close> between \<open>lock.Lock()\<close> and the deferred \<open>lock.Unlock()\<close>.
  Removing the finalizer (\<open>runtime.SetFinalizer(ts, nil)\<close>) leaves no trace in the model.
\<close>

definition freeCTensor_locked :: "env \<Rightarrow> Tensor \<Rightarrow> state \<Rightarrow> error option \<times> Tensor \<times> state" where
  "freeCTensor_locked env ts s =
     (if name ts \<notin> ExistingTensors s
      then (None, ts, s\<lparr>logged := logged s @ [WarnDoubleFree (name ts) (calledFrom ts)]\<rparr>)
      else
        (let s3 = debug_release env ts s;
             s4 = call (CallAtFree (ctensor ts)) s3
         in case AtFreeErr env (calls s3) (ctensor ts) of
              Some e \<Rightarrow> (Some (ReleaseFailed (name ts) (TorchError e)), ts, s4)
            | None \<Rightarrow>
                (None, ts\<lparr>ctensor := nil\<rparr>,
                 s4\<lparr>ExistingTensors := ExistingTensors s4 - {name ts}\<rparr>)))"

text \<open>
  \<open>func freeCTensor(ts *Tensor) error\<close>. The argument is the pointer: \<open>None\<close> is the
  \<open>nil\<close> pointer, \<open>Some ts\<close> points to the object \<open>ts\<close>; the object after the call is
  returned with the error.
\<close>

fun freeCTensor :: "env \<Rightarrow> Tensor option \<Rightarrow> state \<Rightarrow> (error option \<times> Tensor option \<times> state) outcome" where
  "freeCTensor env None s = Return (None, None, s)"
| "freeCTensor env (Some ts) s =
     (if ctensor ts = nil then Return (None, Some ts, s)
      else case Lock s of
             None \<Rightarrow> Blocked
           | Some s1 \<Rightarrow>
               (let (err, ts', s2) = freeCTensor_locked env ts s1
                in Return (err, Some ts', Unlock s2)))"

text \<open>\<open>func (ts *Tensor) Drop() error\<close>, on an object (a \<open>nil\<close> receiver panics).\<close>

definition Drop :: "env \<Rightarrow> Tensor \<Rightarrow> state \<Rightarrow> (error option \<times> Tensor option \<times> state) outcome" where
  "Drop env ts s =
     (if ctensor ts = nil then Return (None, Some ts, s)
      else freeCTensor env (Some (ts\<lparr>calledFrom := ''ts.Drop()''\<rparr>)) s)"

subsection \<open>Copying out and building from bytes\<close>

text \<open>
  \<open>func (ts *Tensor) CopyDataUint8(dst []uint8, numel uint) error\<close>. \<open>len(dst)\<close> is an
  \<open>int\<close> and \<open>int(numel)\<close> converts the unsigned count to a signed one, so the test
  compares signed values. \<open>&dst[0]\<close> panics on an empty slice. What the engine writes
  into \<open>dst\<close> is not modelled.
\<close>

definition CopyDataUint8 :: "env \<Rightarrow> Tensor \<Rightarrow> 8 word list \<Rightarrow> uint \<Rightarrow> state \<Rightarrow> (error option \<times> state) outcome" where
  "CopyDataUint8 env ts dst numel s =
     (if int (length dst) < sint numel
      then Return (Some (CopyDataUint8TooShort (int (length dst)) numel), s)
      else if dst = [] then Panic
      else (let s1 = call (CallAtCopyData (ctensor ts) numel (DTypeSize env (Uint8 env))) s
            in case AtCopyDataErr env (calls s) (ctensor ts) of
                 Some e \<Rightarrow> Return (Some (TorchError e), s1)
               | None \<Rightarrow> Return (None, s1)))"

text \<open>
  \<open>func (ts *Tensor) CopyData(dst interface{}, numel uint) error\<close>. The helper
  \<open>DataCheck(dst)\<close> is in another file; its results \<open>dtype\<close> and \<open>dlen\<close> are the
  arguments here, and its error is overwritten or dropped by the source. On a type
  mismatch \<open>ts.DType()\<close> is called a second time, for the message. \<open>dst\<close> is taken to be a
  slice: for an array or a scalar \<open>reflect.ValueOf(dst).UnsafePointer()\<close> of line 924
  panics, which the model does not follow.
\<close>

definition CopyData :: "env \<Rightarrow> Tensor \<Rightarrow> DType \<Rightarrow> int \<Rightarrow> uint \<Rightarrow> state \<Rightarrow> (error option \<times> state) outcome" where
  "CopyData env ts dtype dlen numel s =
     (if dlen < sint numel then Return (Some (CopyDataTooShort dlen numel), s)
      else (let (tdt, s1) = DType env ts s
            in if tdt \<noteq> dtype
               then (let (tdt', s1') = DType env ts s1
                     in Return (Some (CopyDataTypeMismatch dtype tdt'), s1'))
               else (let s2 = call (CallAtCopyData (ctensor ts) numel (DTypeSize env dtype)) s1
                     in case AtCopyDataErr env (calls s1) (ctensor ts) of
                          Some e \<Rightarrow> Return (Some (TorchError e), s2)
                        | None \<Rightarrow> Return (None, s2))))"

text \<open>
  \<open>func OfDataSize(data []byte, shape []int64, dtype gotch.DType, opts ...TensorOpt)\<close>.
  The options only set the name \<open>o.Name\<close>, here \<open>nm\<close>. The product is a product of
  \<open>int\<close>s. \<open>CMalloc\<close> and \<open>binary.Write\<close> of bytes into the fresh buffer stay on the
  host side.
\<close>

definition OfDataSize :: "env \<Rightarrow> 8 word list \<Rightarrow> int64 list \<Rightarrow> DType \<Rightarrow> string \<Rightarrow> state \<Rightarrow> ((error + Tensor) \<times> state) outcome" where
  "OfDataSize env data shape dtype nm s =
     (let elementNum = ElementCount env shape;
          nb = elementNum * DTypeSize env dtype
      in if sint nb \<noteq> int (length data)
         then Return (Inl (DataShapeMismatch dtype (int (length data)) shape), s)
         else (let c = AtTensorOfData env (calls s);
                   s1 = call (CallAtTensorOfData shape (DTypeSize env dtype) (DTypeCKind env dtype)) s
               in case AtTensorOfDataErr env (calls s) of
                    Some e \<Rightarrow> Return (Inl (TorchError e), s1)
                  | None \<Rightarrow> obind (newTensor env c [nm] s1) (\<lambda>(t, s2). Return (Inr t, s2))))"

subsection \<open>Sequences of acquires and releases\<close>

text \<open>
  A program that acquires and releases wrappers, as a list of operations on the objects
  allocated so far, numbered in the order of their creation. \<open>Release i\<close> is a call of
  \<open>freeCTensor\<close> on the pointer to object \<open>i\<close> (by the finalizer or directly),
  \<open>DropOp i\<close> is \<open>Drop\<close> on it. A number that names no object is the \<open>nil\<close> pointer.
\<close>

datatype op = Acquire Ctensor "string list" | Release nat | DropOp nat

type_synonym world = "state \<times> Tensor list"

definition pointer :: "Tensor list \<Rightarrow> nat \<Rightarrow> Tensor option" where
  "pointer objs i = (if i < length objs then Some (objs ! i) else None)"

definition store :: "Tensor list \<Rightarrow> nat \<Rightarrow> Tensor option \<Rightarrow> Tensor list" where
  "store objs i p = (case p of None \<Rightarrow> objs | Some t \<Rightarrow> objs[i := t])"

fun step :: "env \<Rightarrow> op \<Rightarrow> world \<Rightarrow> world outcome" where
  "step env (Acquire c nameOpt) (s, objs) =
     obind (newTensor env c nameOpt s) (\<lambda>(t, s'). Return (s', objs @ [t]))"
| "step env (Release i) (s, objs) =
     obind (freeCTensor env (pointer objs i) s) (\<lambda>(e, p, s'). Return (s', store objs i p))"
| "step env (DropOp i) (s, objs) =
     (case pointer objs i of
        None \<Rightarrow> Panic
      | Some t \<Rightarrow> obind (Drop env t s) (\<lambda>(e, p, s'). Return (s', store objs i p)))"

fun run :: "env \<Rightarrow> op list \<Rightarrow> world \<Rightarrow> world outcome" where
  "run env [] w = Return w"
| "run env (x # xs) w = obind (step env x w) (run env xs)"

text \<open>The number of acquires, and the objects released, in the order of the releases.\<close>

fun acquires :: "op list \<Rightarrow> nat" where
  "acquires [] = 0"
| "acquires (Acquire c nameOpt # xs) = Suc (acquires xs)"
| "acquires (x # xs) = acquires xs"

fun released :: "op list \<Rightarrow> nat list" where
  "released [] = []"
| "released (Acquire c nameOpt # xs) = released xs"
| "released (Release i # xs) = i # released xs"
| "released (DropOp i # xs) = i # released xs"

fun handles :: "op list \<Rightarrow> Ctensor list" where
  "handles [] = []"
| "handles (Acquire c nameOpt # xs) = c # handles xs"
| "handles (x # xs) = handles xs"



subsection \<open>Other goroutines\<close>

text \<open>
  The definitions above are the calls of one goroutine that runs alone. The calls below
  are the same source text with the points between its statements made explicit: at the
  point numbered \<open>k\<close> the other goroutines of the process turn the package variables and
  the object at hand into \<open>others k\<close> of them. The other goroutines run the functions of
  this file, which touch the package variables and the handle field between
  \<open>lock.Lock()\<close> and \<open>lock.Unlock()\<close> only; so while this goroutine holds the mutex they
  change nothing (\<open>respects_lock\<close>). The model leaves aside the write of \<open>calledFrom\<close>
  that a concurrent \<open>Drop\<close> makes before it takes the mutex; it changes the text of the
  warning only. The log and the record of engine calls are those of this goroutine.
\<close>

type_synonym 'a interference = "nat \<Rightarrow> state \<times> 'a \<Rightarrow> state \<times> 'a"

definition respects_lock :: "'a interference \<Rightarrow> bool" where
  "respects_lock others = (\<forall>k s x. lock s \<longrightarrow> others k (s, x) = (s, x))"


text \<open>
  \<open>freeCTensor\<close> (lines 133 to 178) with the points between its statements: after the test
  for \<open>nil\<close>, after \<open>lock.Lock()\<close>, after the debug block, after \<open>delete\<close>, after
  \<open>ts.ctensor = nil\<close>. The deferred \<open>lock.Unlock()\<close> runs at each return.
\<close>

fun freeCTensor_conc ::
  "Tensor interference \<Rightarrow> env \<Rightarrow> Tensor option \<Rightarrow> state
     \<Rightarrow> (error option \<times> Tensor option \<times> state) outcome" where
  "freeCTensor_conc others env None s = Return (None, None, s)"
| "freeCTensor_conc others env (Some ts) s =
     (if ctensor ts = nil then Return (None, Some ts, s)
      else (let (s0, t0) = others 0 (s, ts)
            in case Lock s0 of
                 None \<Rightarrow> Blocked
               | Some s1 \<Rightarrow>
                   (let (s2, t2) = others 1 (s1, t0)
                    in if name t2 \<notin> ExistingTensors s2
                       then Return (None, Some t2,
                              Unlock (s2\<lparr>logged := logged s2
                                         @ [WarnDoubleFree (name t2) (calledFrom t2)]\<rparr>))
                       else
                         (let (s3, t3) = others 2 (debug_release env t2 s2, t2);
                              s4 = call (CallAtFree (ctensor t3)) s3
                          in case AtFreeErr env (calls s3) (ctensor t3) of
                               Some e \<Rightarrow>
                                 Return (Some (ReleaseFailed (name t3) (TorchError e)), Some t3,
                                         Unlock s4)
                             | None \<Rightarrow>
                                 (let (s5, t5) =
                                        others 3 (s4\<lparr>ExistingTensors :=
                                                     ExistingTensors s4 - {name t3}\<rparr>, t3);
                                      (s6, t6) = others 4 (s5, t5\<lparr>ctensor := nil\<rparr>)
                                  in Return (None, Some t6, Unlock s6))))))"


subsection \<open>Engines that answer steadily\<close>




subsection \<open>Sample values\<close>

text \<open>The package-level variables as the declarations of lines 24 to 32 initialise them.\<close>

definition init_state :: state where
  "init_state = \<lparr>TensorCount = 0, AllocatedMem = 0, ExistingTensors = {}, lock = False,
     logged = [], calls = []\<rparr>"

text \<open>
  An engine that never reports an error, with every tensor a defined 3 by 3 tensor of
  4-byte elements of kind 6, outside debug mode. Kind 0 stands for \<open>gotch.Uint8\<close>, of
  size 1.
\<close>

definition quiet_env :: env where
  "quiet_env = \<lparr>Debug = False,
     AtDim = (\<lambda>h c. 2), AtShape = (\<lambda>h c i. 3), AtShapeErr = (\<lambda>h c. None),
     AtDefined = (\<lambda>h c. True), AtDefinedErr = (\<lambda>h c. None),
     AtScalarType = (\<lambda>h c. 6), AtFreeErr = (\<lambda>h c. None), AtCopyDataErr = (\<lambda>h c. None),
     CKind2DType = (\<lambda>k. sint k), DTypeSize = (\<lambda>d. if d = 0 then 1 else 4),
     FlattenDim = (\<lambda>xs. foldr (*) xs 1), ElementCount = (\<lambda>xs. foldr (*) xs 1),
     DataAsPtrErr = (\<lambda>xs. None),
     AtTensorOfData = (\<lambda>h. 9), AtTensorOfDataErr = (\<lambda>h. None),
     DTypeCKind = (\<lambda>d. word_of_int d), Uint8 = 0,
     MapRange = sorted_list_of_set, Quote = (\<lambda>str. CHR 0x22 # str @ [CHR 0x22])\<rparr>"

text \<open>The same engine reporting an error after every \<open>lib.AtFree\<close>.\<close>

definition failing_free_env :: env where
  "failing_free_env = quiet_env\<lparr>AtFreeErr := (\<lambda>h c. Some ''free failed'')\<rparr>"



text \<open>
  Another goroutine (the finalizer) that completes the release of the object at hand as
  soon as the mutex is free: it clears the handle and removes the name.
\<close>

definition finalizer_wins :: "Tensor interference" where
  "finalizer_wins =
     (\<lambda>k (s, t). if lock s then (s, t)
                 else (s\<lparr>ExistingTensors := ExistingTensors s - {name t}\<rparr>, t\<lparr>ctensor := nil\<rparr>))"


text \<open>The same engine answering 101 to the dimension query.\<close>

definition wide_env :: env where
  "wide_env = quiet_env\<lparr>AtDim := (\<lambda>h c. 101)\<rparr>"

definition tensor_a :: Tensor where
  "tensor_a = \<lparr>name = ''a'', ctensor = 7, calledFrom = ''newTensor()''\<rparr>"

text \<open>The state after \<open>newTensor(7, "a")\<close> from the initial state, outside debug mode.\<close>

definition state_a :: state where
  "state_a = \<lparr>TensorCount = 1, AllocatedMem = 0, ExistingTensors = {''a''}, lock = False,
     logged = [], calls = []\<rparr>"

subsection \<open>Properties of \<open>Size\<close>\<close>

lemma length_decodeSize: "length (decodeSize ptr nsize) = unat nsize"
  by (simp add: decodeSize_def)

lemma unat_le_100: "\<not> (100 :: uint64) < d \<Longrightarrow> unat d \<le> 100"
  by (simp add: word_less_nat_alt)

subsection \<open>What the queries leave untouched\<close>

text \<open>
  The query functions change nothing but the record of calls, and never call \<open>lib.AtFree\<close>.
\<close>

lemma Size_frame:
  "Size env ts s = (r, s') \<Longrightarrow>
     \<exists>cs. s' = s\<lparr>calls := calls s @ cs\<rparr> \<and> (\<forall>c. CallAtFree c \<notin> set cs)"
  by (auto simp: Size_def Let_def call_def split: if_splits option.splits)

lemma DType_frame:
  "DType env ts s = (d, s') \<Longrightarrow>
     \<exists>cs. s' = s\<lparr>calls := calls s @ cs\<rparr> \<and> (\<forall>c. CallAtFree c \<notin> set cs)"
  by (auto simp: DType_def Let_def call_def)

lemma Defined_frame:
  "Defined env ts s = (r, s') \<Longrightarrow>
     \<exists>cs. s' = s\<lparr>calls := calls s @ cs\<rparr> \<and> (\<forall>c. CallAtFree c \<notin> set cs)"
  by (auto simp: Defined_def Let_def call_def split: option.splits)

lemma frame_trans:
  "s1 = s\<lparr>calls := calls s @ cs\<rparr> \<Longrightarrow> s2 = s1\<lparr>calls := calls s1 @ ds\<rparr> \<Longrightarrow>
     s2 = s\<lparr>calls := calls s @ (cs @ ds)\<rparr>"
  by simp

lemma Numel_frame:
  assumes "Numel env ts s = Return (n, s')"
  shows "\<exists>cs. s' = s\<lparr>calls := calls s @ cs\<rparr> \<and> (\<forall>c. CallAtFree c \<notin> set cs)"
proof -
  obtain r1 s1 where d: "Defined env ts s = (r1, s1)" by (cases "Defined env ts s")
  from Defined_frame [OF d] obtain cs where
    s1: "s1 = s\<lparr>calls := calls s @ cs\<rparr>" and cs: "\<forall>c. CallAtFree c \<notin> set cs" by blast
  show ?thesis
  proof (cases r1)
    case (Inl e)
    with assms d show ?thesis by (simp add: Numel_def MustDefined_def)
  next
    case (Inr b)
    show ?thesis
    proof (cases b)
      case False
      with assms d Inr have "s' = s1" by (simp add: Numel_def MustDefined_def)
      with s1 cs show ?thesis by blast
    next
      case True
      obtain r2 s2 where z: "Size env ts s1 = (r2, s2)" by (cases "Size env ts s1")
      from Size_frame [OF z] obtain ds where
        s2: "s2 = s1\<lparr>calls := calls s1 @ ds\<rparr>" and ds: "\<forall>c. CallAtFree c \<notin> set ds" by blast
      from assms d Inr True z have "s' = s2"
        by (cases r2) (simp_all add: Numel_def MustDefined_def MustSize_def)
      with frame_trans [OF s1 s2] have "s' = s\<lparr>calls := calls s @ (cs @ ds)\<rparr>" by simp
      moreover from cs ds have "\<forall>c. CallAtFree c \<notin> set (cs @ ds)" by simp
      ultimately show ?thesis by blast
    qed
  qed
qed

lemma nbytes_frame:
  assumes "nbytes env ts s = Return (n, s')"
  shows "\<exists>cs. s' = s\<lparr>calls := calls s @ cs\<rparr> \<and> (\<forall>c. CallAtFree c \<notin> set cs)"
proof (cases "Numel env ts s")
  case (Return p)
  obtain m s1 where p: "p = (m, s1)" by (cases p)
  from Numel_frame [of env ts s m s1] Return p obtain cs where
    s1: "s1 = s\<lparr>calls := calls s @ cs\<rparr>" and cs: "\<forall>c. CallAtFree c \<notin> set cs" by blast
  show ?thesis
  proof (cases "m = 0")
    case True
    with assms Return p have "s' = s1" by (simp add: nbytes_def)
    with s1 cs show ?thesis by blast
  next
    case False
    obtain d s2 where z: "DType env ts s1 = (d, s2)" by (cases "DType env ts s1")
    from DType_frame [OF z] obtain ds where
      s2: "s2 = s1\<lparr>calls := calls s1 @ ds\<rparr>" and ds: "\<forall>c. CallAtFree c \<notin> set ds" by blast
    from assms Return p False z have "s' = s2" by (simp add: nbytes_def)
    with frame_trans [OF s1 s2] have "s' = s\<lparr>calls := calls s @ (cs @ ds)\<rparr>" by simp
    moreover from cs ds have "\<forall>c. CallAtFree c \<notin> set (cs @ ds)" by simp
    ultimately show ?thesis by blast
  qed
qed (use assms in \<open>simp_all add: nbytes_def\<close>)

subsection \<open>What \<open>newTensor\<close> does\<close>

lemma newTensor_blocked: "lock s \<Longrightarrow> newTensor env c nameOpt s = Blocked"
  by (simp add: newTensor_def Lock_def)

lemma newTensor_quiet:
  assumes "\<not> Debug env" "\<not> lock s"
  shows "newTensor env c nameOpt s =
     Return (\<lparr>name = (if newName nameOpt (TensorCount s + 1) \<in> ExistingTensors s
                      then newName nameOpt (TensorCount s + 1) @ ''_''
                             @ sprintf_09d (TensorCount s + 1)
                      else newName nameOpt (TensorCount s + 1)),
              ctensor = c, calledFrom = ''newTensor()''\<rparr>,
             s\<lparr>TensorCount := TensorCount s + 1,
               ExistingTensors :=
                 insert (if newName nameOpt (TensorCount s + 1) \<in> ExistingTensors s
                      then newName nameOpt (TensorCount s + 1) @ ''_''
                             @ sprintf_09d (TensorCount s + 1)
                      else newName nameOpt (TensorCount s + 1)) (ExistingTensors s)\<rparr>)"
  using assms by (simp add: newTensor_def Lock_def Unlock_def Let_def)

lemma newTensor_debug:
  assumes "Debug env" "\<not> lock s"
    and "nbytes env \<lparr>name = [], ctensor = c, calledFrom = []\<rparr>
           (s\<lparr>lock := True, TensorCount := TensorCount s + 1\<rparr>) = Return (n, s3)"
  shows "newTensor env c nameOpt s =
     Return (\<lparr>name = (if newName nameOpt (TensorCount s + 1) \<in> ExistingTensors s
                      then newName nameOpt (TensorCount s + 1) @ ''_'' @ sprintf_09d (TensorCount s + 1)
                      else newName nameOpt (TensorCount s + 1)),
              ctensor = c, calledFrom = ''newTensor()''\<rparr>,
             s3\<lparr>lock := False, AllocatedMem := AllocatedMem s + n,
               logged := logged s @ [InfoAdded [] n],
               ExistingTensors :=
                 insert (if newName nameOpt (TensorCount s + 1) \<in> ExistingTensors s
                      then newName nameOpt (TensorCount s + 1) @ ''_'' @ sprintf_09d (TensorCount s + 1)
                      else newName nameOpt (TensorCount s + 1)) (ExistingTensors s)\<rparr>)"
proof -
  from nbytes_frame [OF assms(3)] obtain cs where
    s3: "s3 = s\<lparr>lock := True, TensorCount := TensorCount s + 1, calls := calls s @ cs\<rparr>"
    by auto
  show ?thesis
    using assms(1,2,3) 
    by (simp add: newTensor_def Lock_def Unlock_def Let_def s3)
qed

lemma newTensor_Return:
  assumes "newTensor env c nameOpt s = Return (t, s')"
  shows "\<not> lock s" and "\<not> lock s'" and "TensorCount s' = TensorCount s + 1"
    and "ctensor t = c" and "calledFrom t = ''newTensor()''"
    and "ExistingTensors s' = insert (name t) (ExistingTensors s)"
    and "name t = (if newName nameOpt (TensorCount s') \<in> ExistingTensors s
                   then newName nameOpt (TensorCount s') @ ''_'' @ sprintf_09d (TensorCount s')
                   else newName nameOpt (TensorCount s'))"
    and "\<exists>cs. calls s' = calls s @ cs \<and> (\<forall>c. CallAtFree c \<notin> set cs)"
    and "\<not> Debug env \<Longrightarrow> AllocatedMem s' = AllocatedMem s \<and> logged s' = logged s \<and> calls s' = calls s"
proof -
  show nl: "\<not> lock s" using assms newTensor_blocked [of s env c nameOpt] by auto
  have all: "\<not> lock s' \<and> TensorCount s' = TensorCount s + 1 \<and> ctensor t = c
      \<and> calledFrom t = ''newTensor()'' \<and> ExistingTensors s' = insert (name t) (ExistingTensors s)
      \<and> name t = (if newName nameOpt (TensorCount s') \<in> ExistingTensors s
                   then newName nameOpt (TensorCount s') @ ''_'' @ sprintf_09d (TensorCount s')
                   else newName nameOpt (TensorCount s'))
      \<and> (\<exists>cs. calls s' = calls s @ cs \<and> (\<forall>c. CallAtFree c \<notin> set cs))
      \<and> (\<not> Debug env \<longrightarrow> AllocatedMem s' = AllocatedMem s \<and> logged s' = logged s \<and> calls s' = calls s)"
  proof (cases "Debug env")
    case False
    from newTensor_quiet [OF False nl, of c nameOpt] assms nl show ?thesis
      by auto
  next
    case True
    show ?thesis
    proof (cases "nbytes env \<lparr>name = [], ctensor = c, calledFrom = []\<rparr>
           (s\<lparr>lock := True, TensorCount := TensorCount s + 1\<rparr>)")
      case (Return p)
      obtain n s3 where p: "p = (n, s3)" by (cases p)
      from Return p have nb: "nbytes env \<lparr>name = [], ctensor = c, calledFrom = []\<rparr>
           (s\<lparr>lock := True, TensorCount := TensorCount s + 1\<rparr>) = Return (n, s3)" by simp
      from nbytes_frame [OF nb] obtain cs where
        s3: "s3 = s\<lparr>lock := True, TensorCount := TensorCount s + 1, calls := calls s @ cs\<rparr>"
        and cs: "\<forall>c. CallAtFree c \<notin> set cs"
        by auto
      from newTensor_debug [OF True nl, of c n s3 nameOpt] Return p assms True cs nl show ?thesis
        by (auto simp: s3)
    next
      case (Fatal e)
      with assms True nl show ?thesis by (simp add: newTensor_def Lock_def Let_def)
    next
      case Panic
      with assms True nl show ?thesis by (simp add: newTensor_def Lock_def Let_def)
    next
      case Blocked
      with assms True nl show ?thesis by (simp add: newTensor_def Lock_def Let_def)
    qed
  qed
  then show "\<not> lock s'" and "TensorCount s' = TensorCount s + 1"
    and "ctensor t = c" and "calledFrom t = ''newTensor()''"
    and "ExistingTensors s' = insert (name t) (ExistingTensors s)"
    and "name t = (if newName nameOpt (TensorCount s') \<in> ExistingTensors s
                   then newName nameOpt (TensorCount s') @ ''_'' @ sprintf_09d (TensorCount s')
                   else newName nameOpt (TensorCount s'))"
    and "\<exists>cs. calls s' = calls s @ cs \<and> (\<forall>c. CallAtFree c \<notin> set cs)"
    and "\<not> Debug env \<Longrightarrow> AllocatedMem s' = AllocatedMem s \<and> logged s' = logged s \<and> calls s' = calls s"
    by blast+
qed

subsection \<open>What \<open>freeCTensor\<close> does\<close>

lemma debug_release_off: "\<not> Debug env \<Longrightarrow> debug_release env ts s = s"
  by (simp add: debug_release_def)

lemma debug_release_frame:
  "\<exists>cs m l. debug_release env ts s = s\<lparr>AllocatedMem := m, logged := l, calls := calls s @ cs\<rparr>
     \<and> (\<forall>c. CallAtFree c \<notin> set cs)"
proof (cases "Debug env")
  case False
  have "s = s\<lparr>AllocatedMem := AllocatedMem s, logged := logged s, calls := calls s @ []\<rparr>" by simp
  with False show ?thesis
    by (metis debug_release_off empty_iff list.set(1))
next
  case True
  obtain r s1 where z: "Size env ts s = (r, s1)" by (cases "Size env ts s")
  obtain d s2 where y: "DType env ts s1 = (d, s2)" by (cases "DType env ts s1")
  from Size_frame [OF z] obtain cs where
    s1: "s1 = s\<lparr>calls := calls s @ cs\<rparr>" and cs: "\<forall>c. CallAtFree c \<notin> set cs" by blast
  from DType_frame [OF y] obtain ds where
    s2: "s2 = s1\<lparr>calls := calls s1 @ ds\<rparr>" and ds: "\<forall>c. CallAtFree c \<notin> set ds" by blast
  from frame_trans [OF s1 s2] have s2': "s2 = s\<lparr>calls := calls s @ (cs @ ds)\<rparr>" .
  have "debug_release env ts s =
      s\<lparr>AllocatedMem := AllocatedMem s -
             FlattenDim env (case r of Inl e \<Rightarrow> [] | Inr sh \<Rightarrow> sh) * DTypeSize env d,
         logged := logged s @ [InfoReleased (name ts)
             (FlattenDim env (case r of Inl e \<Rightarrow> [] | Inr sh \<Rightarrow> sh) * DTypeSize env d)],
         calls := calls s @ (cs @ ds)\<rparr>"
    using True z y by (simp add: debug_release_def Let_def s2')
  moreover from cs ds have "\<forall>c. CallAtFree c \<notin> set (cs @ ds)" by simp
  ultimately show ?thesis by blast
qed

lemma freeCTensor_nil: "ctensor ts = nil \<Longrightarrow> freeCTensor env (Some ts) s = Return (None, Some ts, s)"
  by simp

lemma freeCTensor_blocked:
  "ctensor ts \<noteq> nil \<Longrightarrow> lock s \<Longrightarrow> freeCTensor env (Some ts) s = Blocked"
  by (simp add: Lock_def)

lemma freeCTensor_absent:
  "ctensor ts \<noteq> nil \<Longrightarrow> \<not> lock s \<Longrightarrow> name ts \<notin> ExistingTensors s \<Longrightarrow>
     freeCTensor env (Some ts) s =
       Return (None, Some ts, s\<lparr>logged := logged s @ [WarnDoubleFree (name ts) (calledFrom ts)]\<rparr>)"
  by (simp add: Lock_def Unlock_def freeCTensor_locked_def)

lemma freeCTensor_present:
  assumes "ctensor ts \<noteq> nil" "\<not> lock s" "name ts \<in> ExistingTensors s"
  shows "\<exists>cs m l. (\<forall>c. CallAtFree c \<notin> set cs)
     \<and> (\<not> Debug env \<longrightarrow> cs = [] \<and> m = AllocatedMem s \<and> l = logged s)
     \<and> freeCTensor env (Some ts) s =
        (case AtFreeErr env (calls s @ cs) (ctensor ts) of
           Some e \<Rightarrow>
             Return (Some (ReleaseFailed (name ts) (TorchError e)), Some ts,
                     s\<lparr>AllocatedMem := m, logged := l,
                       calls := calls s @ cs @ [CallAtFree (ctensor ts)]\<rparr>)
         | None \<Rightarrow>
             Return (None, Some (ts\<lparr>ctensor := nil\<rparr>),
                     s\<lparr>AllocatedMem := m, logged := l,
                       calls := calls s @ cs @ [CallAtFree (ctensor ts)],
                       ExistingTensors := ExistingTensors s - {name ts}\<rparr>))"
proof (cases "Debug env")
  case False
  have "freeCTensor env (Some ts) s =
        (case AtFreeErr env (calls s @ []) (ctensor ts) of
           Some e \<Rightarrow>
             Return (Some (ReleaseFailed (name ts) (TorchError e)), Some ts,
                     s\<lparr>AllocatedMem := AllocatedMem s, logged := logged s,
                       calls := calls s @ [] @ [CallAtFree (ctensor ts)]\<rparr>)
         | None \<Rightarrow>
             Return (None, Some (ts\<lparr>ctensor := nil\<rparr>),
                     s\<lparr>AllocatedMem := AllocatedMem s, logged := logged s,
                       calls := calls s @ [] @ [CallAtFree (ctensor ts)],
                       ExistingTensors := ExistingTensors s - {name ts}\<rparr>))"
    using assms False
    by (simp add: Lock_def Unlock_def freeCTensor_locked_def debug_release_off call_def Let_def
        split: option.split)
  then show ?thesis using False by (intro exI [of _ "[]"] exI [of _ "AllocatedMem s"] exI [of _ "logged s"]) simp
next
  case True
  from debug_release_frame [of env ts "s\<lparr>lock := True\<rparr>"] obtain cs m l where
    d: "debug_release env ts (s\<lparr>lock := True\<rparr>)
          = s\<lparr>lock := True, AllocatedMem := m, logged := l, calls := calls s @ cs\<rparr>"
    and cs: "\<forall>c. CallAtFree c \<notin> set cs" by auto
  have "freeCTensor env (Some ts) s =
        (case AtFreeErr env (calls s @ cs) (ctensor ts) of
           Some e \<Rightarrow>
             Return (Some (ReleaseFailed (name ts) (TorchError e)), Some ts,
                     s\<lparr>AllocatedMem := m, logged := l,
                       calls := calls s @ cs @ [CallAtFree (ctensor ts)]\<rparr>)
         | None \<Rightarrow>
             Return (None, Some (ts\<lparr>ctensor := nil\<rparr>),
                     s\<lparr>AllocatedMem := m, logged := l,
                       calls := calls s @ cs @ [CallAtFree (ctensor ts)],
                       ExistingTensors := ExistingTensors s - {name ts}\<rparr>))"
    using assms
    by (simp add: Lock_def Unlock_def freeCTensor_locked_def d call_def Let_def
        split: option.split)
  with cs True show ?thesis by blast
qed

subsection \<open>The dimension guard of \<open>Size\<close>\<close>

text \<open>
  C10. When the engine's dimension query answers more than 100, \<open>Size\<close> returns the
  invalid-dimension error having made the dimension query only (the shape routine is
  not called); a shape that \<open>Size\<close> returns has at most 100 entries; and the test
  \<open>dim < 0\<close> never holds, \<open>dim\<close> being unsigned.
\<close>

theorem Size_dim_guard:
  "(100 < AtDim env (calls s) (ctensor ts) \<longrightarrow>
      Size env ts s =
        (Inl (InvalidDim (AtDim env (calls s) (ctensor ts))), call (CallAtDim (ctensor ts)) s)
      \<and> CallAtShape (ctensor ts) \<notin> set (drop (length (calls s)) (calls (snd (Size env ts s)))))
   \<and> (\<forall>shape s'. Size env ts s = (Inr shape, s') \<longrightarrow> length shape \<le> 100)
   \<and> \<not> AtDim env (calls s) (ctensor ts) < 0"
proof (intro conjI impI allI)
  assume big: "100 < AtDim env (calls s) (ctensor ts)"
  then show "Size env ts s =
        (Inl (InvalidDim (AtDim env (calls s) (ctensor ts))), call (CallAtDim (ctensor ts)) s)"
    by (simp add: Size_def Let_def)
  then show "CallAtShape (ctensor ts) \<notin> set (drop (length (calls s)) (calls (snd (Size env ts s))))"
    by (simp add: call_def)
next
  fix shape s'
  assume ok: "Size env ts s = (Inr shape, s')"
  then have "\<not> 100 < AtDim env (calls s) (ctensor ts)"
    by (auto simp: Size_def Let_def)
  moreover from ok have "shape = decodeSize (AtShape env (calls (call (CallAtDim (ctensor ts)) s)) (ctensor ts))
      (AtDim env (calls s) (ctensor ts))"
    by (auto simp: Size_def Let_def split: if_splits option.splits)
  ultimately show "length shape \<le> 100"
    by (simp add: length_decodeSize unat_le_100)
next
  show "\<not> AtDim env (calls s) (ctensor ts) < 0"
    by simp
qed

theorem Size_dim_guard_witness:
  "100 < AtDim wide_env (calls init_state) (ctensor tensor_a)
   \<and> Size wide_env tensor_a init_state = (Inl (InvalidDim 101), call (CallAtDim 7) init_state)
   \<and> Size quiet_env tensor_a init_state
       = (Inr [3, 3], call (CallAtShape 7) (call (CallAtDim 7) init_state))
   \<and> length [3 :: int64, 3] \<le> 100"
  using Size_dim_guard [of wide_env init_state tensor_a]
    Size_dim_guard [of quiet_env init_state tensor_a]
  by (simp add: Size_def wide_env_def quiet_env_def tensor_a_def init_state_def call_def
      decodeSize_def upt_rec)

subsection \<open>Release when the engine reports an error\<close>

lemma freeCTensor_error_only_native:
  assumes "freeCTensor env (Some ts) s = Return (Some err, p, s')"
  shows "ctensor ts \<noteq> nil \<and> \<not> lock s \<and> name ts \<in> ExistingTensors s"
proof (intro conjI)
  show a: "ctensor ts \<noteq> nil" using assms by (auto simp del: freeCTensor.simps simp add: freeCTensor_nil)
  show b: "\<not> lock s" using assms a freeCTensor_blocked [of ts s env] by auto
  show "name ts \<in> ExistingTensors s" using assms a b freeCTensor_absent [of ts s env] by auto
qed

text \<open>
  C1 (as amended). When \<open>TorchErr()\<close> reports an error after \<open>lib.AtFree\<close>, \<open>freeCTensor\<close>
  returns that error wrapped and stops there: the registry still holds the wrapper's
  name and the handle field is unchanged. An error is returned in no other case, and
  the mutex is released.
\<close>

theorem freeCTensor_native_error:
  "(ctensor ts \<noteq> nil \<and> \<not> lock s \<and> name ts \<in> ExistingTensors s
      \<and> (\<forall>h. AtFreeErr env h (ctensor ts) \<noteq> None)
     \<longrightarrow> (\<exists>err s'. freeCTensor env (Some ts) s = Return (Some err, Some ts, s')))
   \<and> (\<forall>err p s'. freeCTensor env (Some ts) s = Return (Some err, p, s')
     \<longrightarrow> p = Some ts \<and> ctensor ts \<noteq> nil
         \<and> ExistingTensors s' = ExistingTensors s \<and> name ts \<in> ExistingTensors s'
         \<and> (\<exists>h e. AtFreeErr env h (ctensor ts) = Some e
                \<and> err = ReleaseFailed (name ts) (TorchError e))
         \<and> last (calls s') = CallAtFree (ctensor ts) \<and> \<not> lock s')"
proof (rule conjI; intro allI impI)
  assume h: "ctensor ts \<noteq> nil \<and> \<not> lock s \<and> name ts \<in> ExistingTensors s
      \<and> (\<forall>h. AtFreeErr env h (ctensor ts) \<noteq> None)"
  from freeCTensor_present [of ts s env] h obtain cs m l where
    f: "freeCTensor env (Some ts) s =
        (case AtFreeErr env (calls s @ cs) (ctensor ts) of
           Some e \<Rightarrow>
             Return (Some (ReleaseFailed (name ts) (TorchError e)), Some ts,
                     s\<lparr>AllocatedMem := m, logged := l,
                       calls := calls s @ cs @ [CallAtFree (ctensor ts)]\<rparr>)
         | None \<Rightarrow>
             Return (None, Some (ts\<lparr>ctensor := nil\<rparr>),
                     s\<lparr>AllocatedMem := m, logged := l,
                       calls := calls s @ cs @ [CallAtFree (ctensor ts)],
                       ExistingTensors := ExistingTensors s - {name ts}\<rparr>))"
    by blast
  from h obtain e where "AtFreeErr env (calls s @ cs) (ctensor ts) = Some e" by auto
  with f show "\<exists>err s'. freeCTensor env (Some ts) s = Return (Some err, Some ts, s')" by simp
next
  fix err p s'
  assume r: "freeCTensor env (Some ts) s = Return (Some err, p, s')"
  from freeCTensor_error_only_native [OF r] have
    pre: "ctensor ts \<noteq> nil" "\<not> lock s" "name ts \<in> ExistingTensors s" by simp_all
  from freeCTensor_present [OF pre, of env] obtain cs m l where
    f: "freeCTensor env (Some ts) s =
        (case AtFreeErr env (calls s @ cs) (ctensor ts) of
           Some e \<Rightarrow>
             Return (Some (ReleaseFailed (name ts) (TorchError e)), Some ts,
                     s\<lparr>AllocatedMem := m, logged := l,
                       calls := calls s @ cs @ [CallAtFree (ctensor ts)]\<rparr>)
         | None \<Rightarrow>
             Return (None, Some (ts\<lparr>ctensor := nil\<rparr>),
                     s\<lparr>AllocatedMem := m, logged := l,
                       calls := calls s @ cs @ [CallAtFree (ctensor ts)],
                       ExistingTensors := ExistingTensors s - {name ts}\<rparr>))"
    by blast
  show "p = Some ts \<and> ctensor ts \<noteq> nil
         \<and> ExistingTensors s' = ExistingTensors s \<and> name ts \<in> ExistingTensors s'
         \<and> (\<exists>h e. AtFreeErr env h (ctensor ts) = Some e
                \<and> err = ReleaseFailed (name ts) (TorchError e))
         \<and> last (calls s') = CallAtFree (ctensor ts) \<and> \<not> lock s'"
  proof (cases "AtFreeErr env (calls s @ cs) (ctensor ts)")
    case None
    with f r show ?thesis by simp
  next
    case (Some e)
    with f r pre show ?thesis by auto
  qed
qed

theorem freeCTensor_native_error_witness:
  "ctensor tensor_a \<noteq> nil \<and> \<not> lock state_a \<and> name tensor_a \<in> ExistingTensors state_a
     \<and> (\<forall>h. AtFreeErr failing_free_env h (ctensor tensor_a) \<noteq> None)
     \<and> freeCTensor failing_free_env (Some tensor_a) state_a
        = Return (Some (ReleaseFailed ''a'' (TorchError ''free failed'')), Some tensor_a,
                  state_a\<lparr>calls := [CallAtFree 7]\<rparr>)
     \<and> ExistingTensors (state_a\<lparr>calls := [CallAtFree 7]\<rparr>) = ExistingTensors state_a"
  using freeCTensor_native_error [of tensor_a state_a failing_free_env]
  by (simp add: tensor_a_def state_a_def failing_free_env_def quiet_env_def nil_def Lock_def
      Unlock_def freeCTensor_locked_def debug_release_def call_def)

text \<open>
  C1 as stated fails: after \<open>newTensor(7, "a")\<close> and a release whose \<open>lib.AtFree\<close> reports an
  error, the registry still holds \<open>"a"\<close> and the handle is still 7.
\<close>

theorem freeCTensor_native_error_counterexample:
  "newTensor failing_free_env 7 [''a''] init_state = Return (tensor_a, state_a)
   \<and> AtFreeErr failing_free_env (calls state_a) (ctensor tensor_a) = Some ''free failed''
   \<and> freeCTensor failing_free_env (Some tensor_a) state_a
        = Return (Some (ReleaseFailed ''a'' (TorchError ''free failed'')),
                  Some \<lparr>name = ''a'', ctensor = 7, calledFrom = ''newTensor()''\<rparr>,
                  \<lparr>TensorCount = 1, AllocatedMem = 0, ExistingTensors = {''a''}, lock = False,
                    logged = [], calls = [CallAtFree 7]\<rparr>)"
  by (simp add: tensor_a_def state_a_def init_state_def failing_free_env_def quiet_env_def
      nil_def Lock_def Unlock_def freeCTensor_locked_def debug_release_def call_def
      newTensor_def newName_def Let_def)

subsection \<open>What \<open>Drop\<close> does\<close>

lemma Drop_nil: "ctensor ts = nil \<Longrightarrow> Drop env ts s = Return (None, Some ts, s)"
  by (simp add: Drop_def)

lemma Drop_live:
  "ctensor ts \<noteq> nil \<Longrightarrow> Drop env ts s = freeCTensor env (Some (ts\<lparr>calledFrom := ''ts.Drop()''\<rparr>)) s"
  by (simp add: Drop_def)

subsection \<open>The label left by \<open>Drop\<close>\<close>

lemma Size_calledFrom: "Size env (ts\<lparr>calledFrom := x\<rparr>) s = Size env ts s"
  by (simp add: Size_def Let_def split: option.split)

lemma DType_calledFrom: "DType env (ts\<lparr>calledFrom := x\<rparr>) s = DType env ts s"
  by (simp add: DType_def)

lemma debug_release_calledFrom:
  "debug_release env (ts\<lparr>calledFrom := x\<rparr>) s = debug_release env ts s"
  by (simp add: debug_release_def Size_calledFrom DType_calledFrom)

lemma freeCTensor_calledFrom:
  assumes "name ts \<in> ExistingTensors s"
    and "freeCTensor env (Some ts) s = Return (e, Some t', s')"
  shows "freeCTensor env (Some (ts\<lparr>calledFrom := x\<rparr>)) s
           = Return (e, Some (t'\<lparr>calledFrom := x\<rparr>), s')"
  using assms
  by (auto simp: Lock_def freeCTensor_locked_def Let_def debug_release_calledFrom
      split: if_splits option.splits)

subsection \<open>The counters at an acquire\<close>




subsection \<open>Checks before the engine is called\<close>

lemma CopyDataUint8_short:
  "int (length dst) < sint numel \<Longrightarrow>
     CopyDataUint8 env ts dst numel s
       = Return (Some (CopyDataUint8TooShort (int (length dst)) numel), s)"
  by (simp add: CopyDataUint8_def)

lemma sint_eq_unat_small:
  fixes numel :: uint
  assumes "numel < 2 ^ 63"
  shows "sint numel = int (unat numel)"
proof -
  from assms have "uint numel < uint (2 ^ 63 :: uint)" by (simp only: word_less_def)
  then have hi: "uint numel < 2 ^ 63" by simp
  have "- (2 ^ 63) \<le> uint numel" by (rule order_trans [of _ 0]) simp_all
  with hi have "signed_take_bit 63 (uint numel) = uint numel"
    by (intro signed_take_bit_int_eq_self) simp_all
  then have "sint numel = uint numel" by (simp add: sint_uint)
  then show ?thesis by (simp only: uint_nat)
qed

lemma CopyDataUint8_short_unsigned:
  assumes "length dst < unat numel" and "numel < 2 ^ 63"
  shows "CopyDataUint8 env ts dst numel s
       = Return (Some (CopyDataUint8TooShort (int (length dst)) numel), s)"
proof (rule CopyDataUint8_short)
  from assms(1) have "int (length dst) < int (unat numel)" by (simp only: of_nat_less_iff)
  then show "int (length dst) < sint numel" by (simp only: sint_eq_unat_small [OF assms(2)])
qed

lemma CopyData_short:
  "dlen < sint numel \<Longrightarrow>
     CopyData env ts dtype dlen numel s = Return (Some (CopyDataTooShort dlen numel), s)"
  by (simp add: CopyData_def)

lemma CopyData_short_unsigned:
  assumes "dlen < int (unat numel)" and "numel < 2 ^ 63"
  shows "CopyData env ts dtype dlen numel s = Return (Some (CopyDataTooShort dlen numel), s)"
proof (rule CopyData_short)
  from assms(1) show "dlen < sint numel" by (simp only: sint_eq_unat_small [OF assms(2)])
qed

lemma OfDataSize_mismatch:
  "sint (ElementCount env shape * DTypeSize env dtype) \<noteq> int (length data) \<Longrightarrow>
     OfDataSize env data shape dtype nm s
       = Return (Inl (DataShapeMismatch dtype (int (length data)) shape), s)"
  by (simp add: OfDataSize_def Let_def)

text \<open>
  C6 fails on the code for a requested count of \<open>2 ^ 63\<close> or more: \<open>int(numel)\<close> is then
  negative, the test \<open>len(dst) < int(numel)\<close> does not fire, and \<open>lib.AtCopyData\<close> is called
  with a destination of one element.
\<close>

theorem CopyData_huge_numel:
  "length [0 :: 8 word] < unat (2 ^ 63 :: uint)
   \<and> CopyDataUint8 quiet_env tensor_a [0] (2 ^ 63) init_state
       = Return (None, init_state\<lparr>calls := [CallAtCopyData 7 (2 ^ 63) 1]\<rparr>)
   \<and> CopyData quiet_env tensor_a 6 1 (2 ^ 63) init_state
       = Return (None, init_state\<lparr>calls := [CallAtScalarType 7, CallAtCopyData 7 (2 ^ 63) 4]\<rparr>)"
  by (simp add: CopyDataUint8_def CopyData_def DType_def quiet_env_def tensor_a_def
      init_state_def call_def Let_def)

subsection \<open>The two states of a wrapper\<close>

lemma obind_Return:
  "obind m f = Return r \<Longrightarrow> \<exists>x. m = Return x \<and> f x = Return r"
  by (cases m) simp_all

lemma freeCTensor_locked_lock:
  "freeCTensor_locked env ts s = (e, ts', s') \<Longrightarrow> lock s' = lock s"
proof -
  assume a: "freeCTensor_locked env ts s = (e, ts', s')"
  from debug_release_frame [of env ts s] obtain cs m l where
    d: "debug_release env ts s = s\<lparr>AllocatedMem := m, logged := l, calls := calls s @ cs\<rparr>"
    by blast
  from a show ?thesis
    by (auto simp: freeCTensor_locked_def Let_def d call_def split: if_splits option.splits)
qed

lemma freeCTensor_handle:
  assumes "freeCTensor env (Some ts) s = Return (e, p, s')"
  shows "\<exists>ts'. p = Some ts' \<and> name ts' = name ts
     \<and> (ts' = ts \<or> (ctensor ts \<noteq> nil \<and> ts' = ts\<lparr>ctensor := nil\<rparr> \<and> \<not> lock s
            \<and> (\<exists>s2. freeCTensor_locked env ts (s\<lparr>lock := True\<rparr>) = (e, ts', s2)
                  \<and> lock s2 \<and> s' = Unlock s2)))"
proof (cases "ctensor ts = nil")
  case True
  with assms show ?thesis by simp
next
  case False
  with assms freeCTensor_blocked [of ts s env] have nl: "\<not> lock s" by auto
  obtain e2 t2 s2 where f: "freeCTensor_locked env ts (s\<lparr>lock := True\<rparr>) = (e2, t2, s2)"
    by (cases "freeCTensor_locked env ts (s\<lparr>lock := True\<rparr>)")
  from freeCTensor_locked_lock [OF f] have l2: "lock s2" by simp
  from assms False nl f have r: "e = e2" "p = Some t2" "s' = Unlock s2"
    by (simp_all add: Lock_def)
  from f have "name t2 = name ts \<and> (t2 = ts \<or> t2 = ts\<lparr>ctensor := nil\<rparr>)"
    by (auto simp: freeCTensor_locked_def Let_def split: if_splits option.splits)
  with r f l2 False nl show ?thesis by auto
qed

lemma Drop_handle:
  assumes "Drop env ts s = Return (e, p, s')"
  shows "\<exists>ts'. p = Some ts' \<and> name ts' = name ts
     \<and> (ctensor ts' = ctensor ts \<or> (ctensor ts \<noteq> nil \<and> ctensor ts' = nil \<and> \<not> lock s))"
proof (cases "ctensor ts = nil")
  case True
  with assms show ?thesis by (auto simp: Drop_nil)
next
  case False
  with assms have "freeCTensor env (Some (ts\<lparr>calledFrom := ''ts.Drop()''\<rparr>)) s = Return (e, p, s')"
    by (simp add: Drop_live)
  from freeCTensor_handle [OF this] False show ?thesis by auto
qed

lemma step_handles:
  assumes "step env x (s, objs) = Return (s', objs')"
  shows "length objs \<le> length objs'
     \<and> (\<forall>i<length objs. ctensor (objs' ! i) = ctensor (objs ! i)
            \<or> (ctensor (objs ! i) \<noteq> nil \<and> ctensor (objs' ! i) = nil))"
proof (cases x)
  case (Acquire c nameOpt)
  with assms obtain t where "objs' = objs @ [t]"
    by (auto dest!: obind_Return)
  then show ?thesis by (simp add: nth_append)
next
  case (Release j)
  with assms obtain e p where f: "freeCTensor env (pointer objs j) s = Return (e, p, s')"
    and o: "objs' = store objs j p"
    by (auto dest!: obind_Return)
  show ?thesis
  proof (cases "j < length objs")
    case False
    with f o show ?thesis by (simp add: pointer_def store_def)
  next
    case True
    with f have "freeCTensor env (Some (objs ! j)) s = Return (e, p, s')" by (simp add: pointer_def)
    from freeCTensor_handle [OF this] obtain ts' where
      "p = Some ts'" "ts' = objs ! j \<or> (ctensor (objs ! j) \<noteq> nil \<and> ts' = (objs ! j)\<lparr>ctensor := nil\<rparr>)"
      by blast
    with o True show ?thesis by (auto simp: store_def nth_list_update)
  qed
next
  case (DropOp j)
  show ?thesis
  proof (cases "j < length objs")
    case False
    with assms DropOp show ?thesis by (simp add: pointer_def)
  next
    case True
    with assms DropOp obtain e p where f: "Drop env (objs ! j) s = Return (e, p, s')"
      and o: "objs' = store objs j p"
      by (auto simp: pointer_def dest!: obind_Return)
    from Drop_handle [OF f] obtain ts' where
      "p = Some ts'" "ctensor ts' = ctensor (objs ! j) \<or> (ctensor (objs ! j) \<noteq> nil \<and> ctensor ts' = nil)"
      by blast
    with o True show ?thesis by (auto simp: store_def nth_list_update)
  qed
qed

lemma run_handles:
  "run env xs (s, objs) = Return (s', objs') \<Longrightarrow>
     length objs \<le> length objs'
     \<and> (\<forall>i<length objs. ctensor (objs' ! i) = ctensor (objs ! i)
            \<or> (ctensor (objs ! i) \<noteq> nil \<and> ctensor (objs' ! i) = nil))"
proof (induction xs arbitrary: s objs)
  case Nil
  then show ?case by simp
next
  case (Cons x xs)
  from Cons.prems obtain w where st: "step env x (s, objs) = Return w"
    and rest: "run env xs w = Return (s', objs')"
    by (auto dest!: obind_Return)
  obtain s1 objs1 where w: "w = (s1, objs1)" by (cases w)
  note a = step_handles [OF st [unfolded w]]
  note b = Cons.IH [OF rest [unfolded w]]
  from a b have "length objs \<le> length objs'" by simp
  moreover have "\<forall>i<length objs. ctensor (objs' ! i) = ctensor (objs ! i)
            \<or> (ctensor (objs ! i) \<noteq> nil \<and> ctensor (objs' ! i) = nil)"
  proof (intro allI impI)
    fix i assume i: "i < length objs"
    with a have i1: "i < length objs1" by simp
    from a i have "ctensor (objs1 ! i) = ctensor (objs ! i)
            \<or> (ctensor (objs ! i) \<noteq> nil \<and> ctensor (objs1 ! i) = nil)" by blast
    moreover from b i1 have "ctensor (objs' ! i) = ctensor (objs1 ! i)
            \<or> (ctensor (objs1 ! i) \<noteq> nil \<and> ctensor (objs' ! i) = nil)" by blast
    ultimately show "ctensor (objs' ! i) = ctensor (objs ! i)
            \<or> (ctensor (objs ! i) \<noteq> nil \<and> ctensor (objs' ! i) = nil)" by auto
  qed
  ultimately show ?case by simp
qed

subsection \<open>The locked sections run without interference\<close>

lemma debug_release_lock: "lock (debug_release env ts s) = lock s"
proof -
  from debug_release_frame [of env ts s] obtain cs m l where
    "debug_release env ts s = s\<lparr>AllocatedMem := m, logged := l, calls := calls s @ cs\<rparr>"
    by blast
  then show ?thesis by simp
qed

lemma freeCTensor_conc_atomic:
  assumes "respects_lock others"
  shows "freeCTensor_conc others env (Some ts) s =
     (if ctensor ts = nil then Return (None, Some ts, s)
      else (let (s0, t0) = others 0 (s, ts)
            in case Lock s0 of
                 None \<Rightarrow> Blocked
               | Some s1 \<Rightarrow>
                   (let (e, t', s') = freeCTensor_locked env t0 s1
                    in Return (e, Some t', Unlock s'))))"
proof (cases "ctensor ts = nil")
  case True
  then show ?thesis by simp
next
  case False
  obtain s0 t0 where o: "others 0 (s, ts) = (s0, t0)" by (cases "others 0 (s, ts)")
  show ?thesis
  proof (cases "lock s0")
    case True
    with False o show ?thesis by (simp add: Lock_def)
  next
    case nl: False
    let ?s1 = "s0\<lparr>lock := True\<rparr>"
    from assms have id: "\<And>k u x. lock u \<Longrightarrow> others k (u, x) = (u, x)"
      by (simp add: respects_lock_def)
    have i1: "others (Suc 0) (?s1, t0) = (?s1, t0)" by (rule id) simp
    have i2: "others 2 (debug_release env t0 ?s1, t0) = (debug_release env t0 ?s1, t0)"
      by (rule id) (simp add: debug_release_lock)
    have i3: "\<And>r. others 3 (call (CallAtFree (ctensor t0)) (debug_release env t0 ?s1)
                 \<lparr>ExistingTensors := r\<rparr>, t0)
          = (call (CallAtFree (ctensor t0)) (debug_release env t0 ?s1)\<lparr>ExistingTensors := r\<rparr>, t0)"
      by (rule id) (simp add: debug_release_lock call_def)
    have i4: "\<And>r. others 4 (call (CallAtFree (ctensor t0)) (debug_release env t0 ?s1)
                 \<lparr>ExistingTensors := r\<rparr>, t0\<lparr>ctensor := nil\<rparr>)
          = (call (CallAtFree (ctensor t0)) (debug_release env t0 ?s1)\<lparr>ExistingTensors := r\<rparr>,
             t0\<lparr>ctensor := nil\<rparr>)"
      by (rule id) (simp add: debug_release_lock call_def)
    from False o nl show ?thesis
      by (simp add: Lock_def i1 i2 i3 i4 freeCTensor_locked_def Let_def split: option.split)
  qed
qed





lemma respects_lock_finalizer_wins: "respects_lock finalizer_wins"
  by (simp add: respects_lock_def finalizer_wins_def)


subsection \<open>Sequences of acquires and releases\<close>

lemma freeCTensor_globals:
  assumes "freeCTensor env p s = Return (e, q, s')"
  shows "lock s' = lock s" and "TensorCount s' = TensorCount s"
    and "ExistingTensors s' \<subseteq> ExistingTensors s"
    and "\<not> Debug env \<Longrightarrow> AllocatedMem s' = AllocatedMem s"
proof -
  have "lock s' = lock s \<and> TensorCount s' = TensorCount s
      \<and> ExistingTensors s' \<subseteq> ExistingTensors s
      \<and> (\<not> Debug env \<longrightarrow> AllocatedMem s' = AllocatedMem s)"
  proof (cases p)
    case None
    with assms show ?thesis by simp
  next
    case (Some ts)
    show ?thesis
    proof (cases "ctensor ts = nil")
      case True
      with assms Some show ?thesis by simp
    next
      case False
      with assms Some freeCTensor_blocked [of ts s env] have nl: "\<not> lock s" by auto
      show ?thesis
      proof (cases "name ts \<in> ExistingTensors s")
        case False
        from freeCTensor_absent [OF \<open>ctensor ts \<noteq> nil\<close> nl False, of env] assms Some nl
        show ?thesis by auto
      next
        case True
        from freeCTensor_present [OF False nl True, of env] obtain cs m l where
          q: "\<not> Debug env \<longrightarrow> cs = [] \<and> m = AllocatedMem s \<and> l = logged s" and
          f: "freeCTensor env (Some ts) s =
            (case AtFreeErr env (calls s @ cs) (ctensor ts) of
               Some e \<Rightarrow>
                 Return (Some (ReleaseFailed (name ts) (TorchError e)), Some ts,
                         s\<lparr>AllocatedMem := m, logged := l,
                           calls := calls s @ cs @ [CallAtFree (ctensor ts)]\<rparr>)
             | None \<Rightarrow>
                 Return (None, Some (ts\<lparr>ctensor := nil\<rparr>),
                         s\<lparr>AllocatedMem := m, logged := l,
                           calls := calls s @ cs @ [CallAtFree (ctensor ts)],
                           ExistingTensors := ExistingTensors s - {name ts}\<rparr>))"
          by blast
        with assms Some nl show ?thesis
          by (cases "AtFreeErr env (calls s @ cs) (ctensor ts)") auto
      qed
    qed
  qed
  then show "lock s' = lock s" and "TensorCount s' = TensorCount s"
    and "ExistingTensors s' \<subseteq> ExistingTensors s"
    and "\<not> Debug env \<Longrightarrow> AllocatedMem s' = AllocatedMem s"
    by simp_all
qed

lemma Drop_globals:
  assumes "Drop env ts s = Return (e, q, s')"
  shows "lock s' = lock s" and "TensorCount s' = TensorCount s"
    and "ExistingTensors s' \<subseteq> ExistingTensors s"
    and "\<not> Debug env \<Longrightarrow> AllocatedMem s' = AllocatedMem s"
proof -
  have "freeCTensor env (Some (if ctensor ts = nil then ts else ts\<lparr>calledFrom := ''ts.Drop()''\<rparr>)) s
      = Return (e, q, s')"
  proof (cases "ctensor ts = nil")
    case True
    with assms have "e = None" "q = Some ts" "s' = s" by (simp_all add: Drop_nil)
    with True show ?thesis by simp
  next
    case False
    with assms show ?thesis by (simp add: Drop_live)
  qed
  from freeCTensor_globals [OF this]
  show "lock s' = lock s" and "TensorCount s' = TensorCount s"
    and "ExistingTensors s' \<subseteq> ExistingTensors s"
    and "\<not> Debug env \<Longrightarrow> AllocatedMem s' = AllocatedMem s"
    by simp_all
qed

lemma step_quiet:
  assumes "step env x (s, objs) = Return (s', objs')" and "\<not> Debug env"
  shows "AllocatedMem s' = AllocatedMem s \<and> lock s' = lock s"
proof (cases x)
  case (Acquire c nameOpt)
  with assms(1) obtain t where n: "newTensor env c nameOpt s = Return (t, s')"
    by (auto dest!: obind_Return)
  from newTensor_Return(1,2,9) [OF n] assms(2) show ?thesis by simp
next
  case (Release j)
  with assms(1) obtain e p where f: "freeCTensor env (pointer objs j) s = Return (e, p, s')"
    by (auto dest!: obind_Return)
  from freeCTensor_globals(1,4) [OF f] assms(2) show ?thesis by simp
next
  case (DropOp j)
  with assms(1) obtain t e p where f: "Drop env t s = Return (e, p, s')"
    by (auto dest!: obind_Return split: option.splits)
  from Drop_globals(1,4) [OF f] assms(2) show ?thesis by simp
qed

lemma run_quiet:
  "run env xs (s, objs) = Return (s', objs') \<Longrightarrow> \<not> Debug env \<Longrightarrow>
     AllocatedMem s' = AllocatedMem s \<and> lock s' = lock s"
proof (induction xs arbitrary: s objs)
  case Nil
  then show ?case by simp
next
  case (Cons x xs)
  from Cons.prems(1) obtain w where st: "step env x (s, objs) = Return w"
    and rest: "run env xs w = Return (s', objs')"
    by (auto dest!: obind_Return)
  obtain s1 objs1 where w: "w = (s1, objs1)" by (cases w)
  from step_quiet [OF st [unfolded w] Cons.prems(2)]
    Cons.IH [OF rest [unfolded w] Cons.prems(2)]
  show ?case by simp
qed

lemma CheckCMemLeak_free:
  "\<not> lock s \<Longrightarrow>
     CheckCMemLeak env s
       = Return (report_text env (MapRange env (ExistingTensors s)) (AllocatedMem s), s)"
  by (simp add: CheckCMemLeak_def Lock_def Unlock_def Let_def)


text \<open>
  C9. Outside debug mode neither \<open>newTensor\<close> nor \<open>freeCTensor\<close> nor \<open>Drop\<close> changes
  \<open>AllocatedMem\<close>. So after any sequence of acquires and releases from the initial values
  of the package variables the counter is 0, and the leak report is the report of 0
  bytes with the names then in the registry, however many they are.
\<close>

theorem AllocatedMem_without_debug:
  assumes "\<not> Debug env"
  shows "(\<forall>t s'. newTensor env c nameOpt s = Return (t, s') \<longrightarrow> AllocatedMem s' = AllocatedMem s)
     \<and> (\<forall>e q s'. freeCTensor env p s = Return (e, q, s') \<longrightarrow> AllocatedMem s' = AllocatedMem s)
     \<and> (\<forall>e q s'. Drop env ts s = Return (e, q, s') \<longrightarrow> AllocatedMem s' = AllocatedMem s)
     \<and> (\<forall>s' objs'. run env xs (init_state, []) = Return (s', objs') \<longrightarrow>
           AllocatedMem s' = 0
           \<and> CheckCMemLeak env s'
               = Return (report_text env (MapRange env (ExistingTensors s')) 0, s'))"
proof (intro conjI allI impI)
  fix t s' assume "newTensor env c nameOpt s = Return (t, s')"
  from newTensor_Return(9) [OF this assms] show "AllocatedMem s' = AllocatedMem s" by simp
next
  fix e q s' assume "freeCTensor env p s = Return (e, q, s')"
  from freeCTensor_globals(4) [OF this assms] show "AllocatedMem s' = AllocatedMem s" .
next
  fix e q s' assume "Drop env ts s = Return (e, q, s')"
  from Drop_globals(4) [OF this assms] show "AllocatedMem s' = AllocatedMem s" .
next
  fix s' objs' assume r: "run env xs (init_state, []) = Return (s', objs')"
  from run_quiet [OF r assms] show m: "AllocatedMem s' = 0" by (simp add: init_state_def)
  from run_quiet [OF r assms] have "\<not> lock s'" by (simp add: init_state_def)
  from CheckCMemLeak_free [OF this, of env] m
  show "CheckCMemLeak env s'
               = Return (report_text env (MapRange env (ExistingTensors s')) 0, s')" by simp
qed

theorem AllocatedMem_without_debug_witness:
  "\<not> Debug quiet_env
   \<and> newTensor quiet_env 7 [''a''] init_state = Return (tensor_a, state_a)
   \<and> AllocatedMem state_a = AllocatedMem init_state
   \<and> freeCTensor quiet_env (Some tensor_a) state_a
       = Return (None, Some (tensor_a\<lparr>ctensor := nil\<rparr>),
           state_a\<lparr>ExistingTensors := {}, calls := [CallAtFree 7]\<rparr>)
   \<and> Drop quiet_env tensor_a state_a
       = Return (None, Some (tensor_a\<lparr>calledFrom := ''ts.Drop()'', ctensor := nil\<rparr>),
           state_a\<lparr>ExistingTensors := {}, calls := [CallAtFree 7]\<rparr>)
   \<and> AllocatedMem (state_a\<lparr>ExistingTensors := {}, calls := [CallAtFree 7]\<rparr>)
       = AllocatedMem state_a
   \<and> run quiet_env [Acquire 7 [''a''], Acquire 8 [''b'']] (init_state, [])
       = Return (state_a\<lparr>TensorCount := 2, ExistingTensors := {''a'', ''b''}\<rparr>,
                 [tensor_a, \<lparr>name = ''b'', ctensor = 8, calledFrom = ''newTensor()''\<rparr>])
   \<and> AllocatedMem (state_a\<lparr>TensorCount := 2, ExistingTensors := {''a'', ''b''}\<rparr>) = 0"
proof -
  have d: "\<not> Debug quiet_env" by (simp add: quiet_env_def)
  have a: "newTensor quiet_env 7 [''a''] init_state = Return (tensor_a, state_a)"
    by (simp add: newTensor_def quiet_env_def init_state_def tensor_a_def state_a_def Lock_def
        Unlock_def newName_def Let_def)
  have f: "freeCTensor quiet_env (Some tensor_a) state_a
       = Return (None, Some (tensor_a\<lparr>ctensor := nil\<rparr>),
           state_a\<lparr>ExistingTensors := {}, calls := [CallAtFree 7]\<rparr>)"
    by (simp add: tensor_a_def state_a_def quiet_env_def nil_def Lock_def Unlock_def
        freeCTensor_locked_def debug_release_def call_def Let_def)
  have p: "Drop quiet_env tensor_a state_a
       = Return (None, Some (tensor_a\<lparr>calledFrom := ''ts.Drop()'', ctensor := nil\<rparr>),
           state_a\<lparr>ExistingTensors := {}, calls := [CallAtFree 7]\<rparr>)"
    by (simp add: tensor_a_def state_a_def quiet_env_def nil_def Lock_def Unlock_def
        freeCTensor_locked_def debug_release_def call_def Let_def Drop_def)
  have r: "run quiet_env [Acquire 7 [''a''], Acquire 8 [''b'']] (init_state, [])
       = Return (state_a\<lparr>TensorCount := 2, ExistingTensors := {''a'', ''b''}\<rparr>,
                 [tensor_a, \<lparr>name = ''b'', ctensor = 8, calledFrom = ''newTensor()''\<rparr>])"
    by (auto simp add: newTensor_def quiet_env_def init_state_def tensor_a_def state_a_def Lock_def
        Unlock_def newName_def Let_def)
  from AllocatedMem_without_debug [OF d, of 7 "[''a'']" init_state "Some tensor_a" tensor_a
      "[Acquire 7 [''a''], Acquire 8 [''b'']]"] a r
  have "AllocatedMem state_a = AllocatedMem init_state"
    and "AllocatedMem (state_a\<lparr>TensorCount := 2, ExistingTensors := {''a'', ''b''}\<rparr>) = 0"
    by blast+
  moreover from AllocatedMem_without_debug [OF d, of 7 "[''a'']" state_a "Some tensor_a" tensor_a "[]"] f
  have "AllocatedMem (state_a\<lparr>ExistingTensors := {}, calls := [CallAtFree 7]\<rparr>)
       = AllocatedMem state_a"
    by blast
  ultimately show ?thesis using d a f p r by blast
qed

subsection \<open>Matched acquires and releases\<close>




lemma handles_Cons: "handles (x # xs) = handles [x] @ handles xs"
  by (cases x) simp_all

lemma released_Cons: "released (x # xs) = released [x] @ released xs"
  by (cases x) simp_all

lemma acquires_Cons: "acquires (x # xs) = acquires [x] + acquires xs"
  by (cases x) simp_all



subsection \<open>Further releases\<close>

lemma freeCTensor_calls_free:
  assumes "ctensor ts \<noteq> nil" and "\<not> lock u" and "name ts \<in> ExistingTensors u"
  shows "\<exists>e p u'. freeCTensor env (Some ts) u = Return (e, p, u')
     \<and> last (calls u') = CallAtFree (ctensor ts)"
proof -
  from freeCTensor_present [OF assms, of env] obtain cs m l where
    f: "freeCTensor env (Some ts) u =
        (case AtFreeErr env (calls u @ cs) (ctensor ts) of
           Some e \<Rightarrow>
             Return (Some (ReleaseFailed (name ts) (TorchError e)), Some ts,
                     u\<lparr>AllocatedMem := m, logged := l,
                       calls := calls u @ cs @ [CallAtFree (ctensor ts)]\<rparr>)
         | None \<Rightarrow>
             Return (None, Some (ts\<lparr>ctensor := nil\<rparr>),
                     u\<lparr>AllocatedMem := m, logged := l,
                       calls := calls u @ cs @ [CallAtFree (ctensor ts)],
                       ExistingTensors := ExistingTensors u - {name ts}\<rparr>))"
    by blast
  show ?thesis
    unfolding f by (cases "AtFreeErr env (calls u @ cs) (ctensor ts)") simp_all
qed

lemma first_release_cases:
  assumes "freeCTensor env (Some ts0) s = Return (None, Some ts, s1)
           \<or> Drop env ts0 s = Return (None, Some ts, s1)"
  shows "ctensor ts = nil \<or> (\<not> lock s1 \<and> name ts \<notin> ExistingTensors s1 \<and> calls s1 = calls s)"
proof -
  have c: "ctensor ts = nil \<or> (\<not> lock s1 \<and> name ts \<notin> ExistingTensors s1 \<and> calls s1 = calls s)"
    if f: "freeCTensor env (Some t) s = Return (None, Some ts, s1)" for t
  proof (cases "ctensor t = nil")
    case True
    with f show ?thesis by simp
  next
    case False
    with f freeCTensor_blocked [of t s env] have nl: "\<not> lock s" by auto
    show ?thesis
    proof (cases "name t \<in> ExistingTensors s")
      case False
      from freeCTensor_absent [OF \<open>ctensor t \<noteq> nil\<close> nl False, of env] f nl False
      show ?thesis by auto
    next
      case True
      from freeCTensor_present [OF False nl True, of env] obtain cs m l where
        g: "freeCTensor env (Some t) s =
          (case AtFreeErr env (calls s @ cs) (ctensor t) of
             Some e \<Rightarrow>
               Return (Some (ReleaseFailed (name t) (TorchError e)), Some t,
                       s\<lparr>AllocatedMem := m, logged := l,
                         calls := calls s @ cs @ [CallAtFree (ctensor t)]\<rparr>)
           | None \<Rightarrow>
               Return (None, Some (t\<lparr>ctensor := nil\<rparr>),
                       s\<lparr>AllocatedMem := m, logged := l,
                         calls := calls s @ cs @ [CallAtFree (ctensor t)],
                         ExistingTensors := ExistingTensors s - {name t}\<rparr>))"
        by blast
      with f show ?thesis
        by (cases "AtFreeErr env (calls s @ cs) (ctensor t)") auto
    qed
  qed
  show ?thesis
  proof (cases "freeCTensor env (Some ts0) s = Return (None, Some ts, s1)")
    case True
    then show ?thesis by (rule c)
  next
    case False
    with assms have d: "Drop env ts0 s = Return (None, Some ts, s1)" by simp
    show ?thesis
    proof (cases "ctensor ts0 = nil")
      case True
      with d show ?thesis by (simp add: Drop_nil)
    next
      case False
      with d have "freeCTensor env (Some (ts0\<lparr>calledFrom := ''ts.Drop()''\<rparr>)) s
          = Return (None, Some ts, s1)" by (simp add: Drop_live)
      then show ?thesis by (rule c)
    qed
  qed
qed

lemma released_stays_released:
  assumes "run env xs (s, objs) = Return (s', objs')" and "i < length objs"
    and "ctensor (objs ! i) = nil"
  shows "step env (Release i) (s', objs') = Return (s', objs')
     \<and> step env (DropOp i) (s', objs') = Return (s', objs')"
proof -
  from run_handles [OF assms(1)] assms(2,3) have l: "i < length objs'"
    and n: "ctensor (objs' ! i) = nil" by auto
  then show ?thesis by (simp add: pointer_def store_def Drop_nil)
qed

lemma freeCTensor_conc_late:
  assumes "respects_lock others" and "ctensor ts \<noteq> nil" and "others 0 (s, ts) = (u, t1)"
    and "\<not> lock u" and "name t1 \<notin> ExistingTensors u"
  shows "freeCTensor_conc others env (Some ts) s =
     Return (None, Some t1, u\<lparr>logged := logged u @ [WarnDoubleFree (name t1) (calledFrom t1)]\<rparr>)"
  unfolding freeCTensor_conc_atomic [OF assms(1)] using assms(2-5)
  by (simp add: Lock_def Unlock_def freeCTensor_locked_def)

text \<open>
  C2 (as amended). A release (\<open>freeCTensor\<close>, as the finalizer calls it, or \<open>Drop\<close>) of a
  wrapper whose handle has been cleared returns \<open>nil\<close> in every state, changes nothing,
  logs nothing and makes no call into the engine; a cleared handle stays cleared over
  any sequence of acquires and releases, so this holds of every later release. A
  release of a wrapper that still has its handle and whose name is not in the registry
  logs the double-free warning, returns \<open>nil\<close> and makes no call into the engine; this is
  what a call does when another goroutine has completed the release of the wrapper
  between the call's test for \<open>nil\<close> and its \<open>lock.Lock()\<close>. A release of a wrapper that
  still has its handle and whose name is in the registry calls \<open>lib.AtFree\<close>. A release
  that returned \<open>nil\<close> has cleared the handle or was skipped with the warning, without a
  call into the engine.
\<close>

theorem second_release:
  "(ctensor ts = nil \<longrightarrow>
      (\<forall>u. freeCTensor env (Some ts) u = Return (None, Some ts, u)
          \<and> Drop env ts u = Return (None, Some ts, u)))
   \<and> (\<forall>u. ctensor ts \<noteq> nil \<and> \<not> lock u \<and> name ts \<notin> ExistingTensors u \<longrightarrow>
          freeCTensor env (Some ts) u =
            Return (None, Some ts,
              u\<lparr>logged := logged u @ [WarnDoubleFree (name ts) (calledFrom ts)]\<rparr>)
          \<and> Drop env ts u =
            Return (None, Some (ts\<lparr>calledFrom := ''ts.Drop()''\<rparr>),
              u\<lparr>logged := logged u @ [WarnDoubleFree (name ts) ''ts.Drop()'']\<rparr>))
   \<and> (\<forall>u. ctensor ts \<noteq> nil \<and> \<not> lock u \<and> name ts \<in> ExistingTensors u \<longrightarrow>
          (\<exists>e p u'. freeCTensor env (Some ts) u = Return (e, p, u')
              \<and> last (calls u') = CallAtFree (ctensor ts)))
   \<and> (\<forall>ts0 s s1. freeCTensor env (Some ts0) s = Return (None, Some ts, s1)
                   \<or> Drop env ts0 s = Return (None, Some ts, s1) \<longrightarrow>
          ctensor ts = nil
          \<or> (\<not> lock s1 \<and> name ts \<notin> ExistingTensors s1 \<and> calls s1 = calls s))
   \<and> (\<forall>xs s objs s' objs' i.
          run env xs (s, objs) = Return (s', objs') \<and> i < length objs
            \<and> ctensor (objs ! i) = nil \<longrightarrow>
          step env (Release i) (s', objs') = Return (s', objs')
          \<and> step env (DropOp i) (s', objs') = Return (s', objs'))
   \<and> (\<forall>others s u t1.
          respects_lock others \<and> ctensor ts \<noteq> nil \<and> others 0 (s, ts) = (u, t1)
            \<and> \<not> lock u \<and> name t1 \<notin> ExistingTensors u \<longrightarrow>
          freeCTensor_conc others env (Some ts) s =
            Return (None, Some t1,
              u\<lparr>logged := logged u @ [WarnDoubleFree (name t1) (calledFrom t1)]\<rparr>))"
proof (intro conjI)
  show "ctensor ts = nil \<longrightarrow>
      (\<forall>u. freeCTensor env (Some ts) u = Return (None, Some ts, u)
          \<and> Drop env ts u = Return (None, Some ts, u))"
    by (simp add: Drop_nil)
  show "\<forall>u. ctensor ts \<noteq> nil \<and> \<not> lock u \<and> name ts \<notin> ExistingTensors u \<longrightarrow>
          freeCTensor env (Some ts) u =
            Return (None, Some ts,
              u\<lparr>logged := logged u @ [WarnDoubleFree (name ts) (calledFrom ts)]\<rparr>)
          \<and> Drop env ts u =
            Return (None, Some (ts\<lparr>calledFrom := ''ts.Drop()''\<rparr>),
              u\<lparr>logged := logged u @ [WarnDoubleFree (name ts) ''ts.Drop()'']\<rparr>)"
  proof (intro allI impI)
    fix u :: state
    assume h: "ctensor ts \<noteq> nil \<and> \<not> lock u \<and> name ts \<notin> ExistingTensors u"
    then have a: "ctensor ts \<noteq> nil" and b: "\<not> lock u" and c: "name ts \<notin> ExistingTensors u"
      by simp_all
    from freeCTensor_absent [OF a b c, of env]
      freeCTensor_absent [of "ts\<lparr>calledFrom := ''ts.Drop()''\<rparr>" u env] a b c
    show "freeCTensor env (Some ts) u =
            Return (None, Some ts,
              u\<lparr>logged := logged u @ [WarnDoubleFree (name ts) (calledFrom ts)]\<rparr>)
          \<and> Drop env ts u =
            Return (None, Some (ts\<lparr>calledFrom := ''ts.Drop()''\<rparr>),
              u\<lparr>logged := logged u @ [WarnDoubleFree (name ts) ''ts.Drop()'']\<rparr>)"
      by (simp add: Drop_live)
  qed
  show "\<forall>u. ctensor ts \<noteq> nil \<and> \<not> lock u \<and> name ts \<in> ExistingTensors u \<longrightarrow>
          (\<exists>e p u'. freeCTensor env (Some ts) u = Return (e, p, u')
              \<and> last (calls u') = CallAtFree (ctensor ts))"
    using freeCTensor_calls_free by blast
  show "\<forall>ts0 s s1. freeCTensor env (Some ts0) s = Return (None, Some ts, s1)
                   \<or> Drop env ts0 s = Return (None, Some ts, s1) \<longrightarrow>
          ctensor ts = nil
          \<or> (\<not> lock s1 \<and> name ts \<notin> ExistingTensors s1 \<and> calls s1 = calls s)"
    using first_release_cases by blast
  show "\<forall>xs s objs s' objs' i.
          run env xs (s, objs) = Return (s', objs') \<and> i < length objs
            \<and> ctensor (objs ! i) = nil \<longrightarrow>
          step env (Release i) (s', objs') = Return (s', objs')
          \<and> step env (DropOp i) (s', objs') = Return (s', objs')"
    using released_stays_released by blast
  show "\<forall>others s u t1.
          respects_lock others \<and> ctensor ts \<noteq> nil \<and> others 0 (s, ts) = (u, t1)
            \<and> \<not> lock u \<and> name t1 \<notin> ExistingTensors u \<longrightarrow>
          freeCTensor_conc others env (Some ts) s =
            Return (None, Some t1,
              u\<lparr>logged := logged u @ [WarnDoubleFree (name t1) (calledFrom t1)]\<rparr>)"
    using freeCTensor_conc_late by blast
qed


theorem second_release_witness:
  "ctensor (tensor_a\<lparr>ctensor := nil\<rparr>) = nil
   \<and> Drop quiet_env (tensor_a\<lparr>ctensor := nil\<rparr>) state_a
       = Return (None, Some (tensor_a\<lparr>ctensor := nil\<rparr>), state_a)
   \<and> ctensor tensor_a \<noteq> nil \<and> \<not> lock init_state
   \<and> name tensor_a \<notin> ExistingTensors init_state
   \<and> freeCTensor quiet_env (Some tensor_a) init_state
       = Return (None, Some tensor_a,
           init_state\<lparr>logged := [WarnDoubleFree ''a'' ''newTensor()'']\<rparr>)
   \<and> \<not> lock state_a \<and> name tensor_a \<in> ExistingTensors state_a
   \<and> freeCTensor quiet_env (Some tensor_a) state_a
       = Return (None, Some (tensor_a\<lparr>ctensor := nil\<rparr>),
           state_a\<lparr>ExistingTensors := {}, calls := [CallAtFree 7]\<rparr>)
   \<and> last (calls (state_a\<lparr>ExistingTensors := {}, calls := [CallAtFree 7]\<rparr>))
       = CallAtFree (ctensor tensor_a)
   \<and> run quiet_env [Acquire 8 [''b'']] (init_state, [tensor_a\<lparr>ctensor := nil\<rparr>])
       = Return (init_state\<lparr>TensorCount := 1, ExistingTensors := {''b''}\<rparr>,
           [tensor_a\<lparr>ctensor := nil\<rparr>,
            \<lparr>name = ''b'', ctensor = 8, calledFrom = ''newTensor()''\<rparr>])
   \<and> step quiet_env (DropOp 0)
        (init_state\<lparr>TensorCount := 1, ExistingTensors := {''b''}\<rparr>,
           [tensor_a\<lparr>ctensor := nil\<rparr>,
            \<lparr>name = ''b'', ctensor = 8, calledFrom = ''newTensor()''\<rparr>])
       = Return (init_state\<lparr>TensorCount := 1, ExistingTensors := {''b''}\<rparr>,
           [tensor_a\<lparr>ctensor := nil\<rparr>,
            \<lparr>name = ''b'', ctensor = 8, calledFrom = ''newTensor()''\<rparr>])
   \<and> respects_lock finalizer_wins
   \<and> finalizer_wins 0 (state_a, tensor_a)
       = (state_a\<lparr>ExistingTensors := {}\<rparr>, tensor_a\<lparr>ctensor := nil\<rparr>)
   \<and> freeCTensor_conc finalizer_wins quiet_env (Some tensor_a) state_a
       = Return (None, Some (tensor_a\<lparr>ctensor := nil\<rparr>),
           state_a\<lparr>ExistingTensors := {}, logged := [WarnDoubleFree ''a'' ''newTensor()'']\<rparr>)"
proof -
  have a: "ctensor (tensor_a\<lparr>ctensor := nil\<rparr>) = nil" by simp
  have b: "ctensor tensor_a \<noteq> nil" "\<not> lock init_state"
    "name tensor_a \<notin> ExistingTensors init_state"
    by (simp_all add: tensor_a_def init_state_def nil_def)
  have c: "\<not> lock state_a" "name tensor_a \<in> ExistingTensors state_a"
    by (simp_all add: tensor_a_def state_a_def)
  have f: "freeCTensor quiet_env (Some tensor_a) state_a
       = Return (None, Some (tensor_a\<lparr>ctensor := nil\<rparr>),
           state_a\<lparr>ExistingTensors := {}, calls := [CallAtFree 7]\<rparr>)"
    by (simp add: tensor_a_def state_a_def quiet_env_def nil_def Lock_def
        Unlock_def freeCTensor_locked_def debug_release_def call_def Let_def)
  have l: "last (calls (state_a\<lparr>ExistingTensors := {}, calls := [CallAtFree 7]\<rparr>))
       = CallAtFree (ctensor tensor_a)" by (simp add: tensor_a_def)
  have r: "run quiet_env [Acquire 8 [''b'']] (init_state, [tensor_a\<lparr>ctensor := nil\<rparr>])
       = Return (init_state\<lparr>TensorCount := 1, ExistingTensors := {''b''}\<rparr>,
           [tensor_a\<lparr>ctensor := nil\<rparr>,
            \<lparr>name = ''b'', ctensor = 8, calledFrom = ''newTensor()''\<rparr>])"
    by (simp add: init_state_def tensor_a_def quiet_env_def
        nil_def Lock_def Unlock_def newTensor_def newName_def Let_def)
  have i: "0 < length [tensor_a\<lparr>ctensor := nil\<rparr>]"
    "ctensor ([tensor_a\<lparr>ctensor := nil\<rparr>] ! 0) = nil" by simp_all
  have o: "finalizer_wins 0 (state_a, tensor_a)
       = (state_a\<lparr>ExistingTensors := {}\<rparr>, tensor_a\<lparr>ctensor := nil\<rparr>)"
    by (simp add: finalizer_wins_def state_a_def tensor_a_def)
  have n: "\<not> lock (state_a\<lparr>ExistingTensors := {}\<rparr>)"
    "name (tensor_a\<lparr>ctensor := nil\<rparr>) \<notin> ExistingTensors (state_a\<lparr>ExistingTensors := {}\<rparr>)"
    by (simp_all add: state_a_def)
  note t = second_release [of "tensor_a\<lparr>ctensor := nil\<rparr>" quiet_env]
  note u = second_release [of tensor_a quiet_env]
  from t a have 1: "Drop quiet_env (tensor_a\<lparr>ctensor := nil\<rparr>) state_a
       = Return (None, Some (tensor_a\<lparr>ctensor := nil\<rparr>), state_a)" by blast
  from u b have "freeCTensor quiet_env (Some tensor_a) init_state
       = Return (None, Some tensor_a,
           init_state\<lparr>logged := logged init_state
              @ [WarnDoubleFree (name tensor_a) (calledFrom tensor_a)]\<rparr>)" by blast
  then have 2: "freeCTensor quiet_env (Some tensor_a) init_state
       = Return (None, Some tensor_a,
           init_state\<lparr>logged := [WarnDoubleFree ''a'' ''newTensor()'']\<rparr>)"
    by (simp add: init_state_def tensor_a_def)
  from t r i have 5: "step quiet_env (DropOp 0)
        (init_state\<lparr>TensorCount := 1, ExistingTensors := {''b''}\<rparr>,
           [tensor_a\<lparr>ctensor := nil\<rparr>,
            \<lparr>name = ''b'', ctensor = 8, calledFrom = ''newTensor()''\<rparr>])
       = Return (init_state\<lparr>TensorCount := 1, ExistingTensors := {''b''}\<rparr>,
           [tensor_a\<lparr>ctensor := nil\<rparr>,
            \<lparr>name = ''b'', ctensor = 8, calledFrom = ''newTensor()''\<rparr>])" by blast
  from u respects_lock_finalizer_wins b(1) o n
  have "freeCTensor_conc finalizer_wins quiet_env (Some tensor_a) state_a
       = Return (None, Some (tensor_a\<lparr>ctensor := nil\<rparr>),
           (state_a\<lparr>ExistingTensors := {}\<rparr>)\<lparr>logged := logged (state_a\<lparr>ExistingTensors := {}\<rparr>)
              @ [WarnDoubleFree (name (tensor_a\<lparr>ctensor := nil\<rparr>))
                   (calledFrom (tensor_a\<lparr>ctensor := nil\<rparr>))]\<rparr>)" by blast
  then have 6: "freeCTensor_conc finalizer_wins quiet_env (Some tensor_a) state_a
       = Return (None, Some (tensor_a\<lparr>ctensor := nil\<rparr>),
           state_a\<lparr>ExistingTensors := {}, logged := [WarnDoubleFree ''a'' ''newTensor()'']\<rparr>)"
    by (simp add: state_a_def tensor_a_def)
  from a 1 b 2 c f l r 5 respects_lock_finalizer_wins o 6 show ?thesis by (intro conjI)
qed

text \<open>
  C2 as stated fails in three ways. The second release of a released wrapper returns at
  the test \<open>ts.ctensor == nil\<close> and logs no warning. After a release for which the
  engine reported an error the wrapper has its handle and its entry, and the second
  release passes handle 7 to \<open>lib.AtFree\<close> a second time. A wrapper whose release was
  skipped with the warning (the third one below, which shares the name of the second) is
  passed to \<open>lib.AtFree\<close> by its second release, once a fourth wrapper has registered the
  name again; that release logs nothing and removes the entry of the fourth wrapper.
\<close>

theorem second_release_counterexample:
  "run quiet_env [Acquire 7 [''a''], Release 0, DropOp 0, Release 0] (init_state, [])
     = Return (\<lparr>TensorCount = 1, AllocatedMem = 0, ExistingTensors = {}, lock = False,
                logged = [], calls = [CallAtFree 7]\<rparr>,
               [\<lparr>name = ''a'', ctensor = 0, calledFrom = ''newTensor()''\<rparr>])
   \<and> run failing_free_env [Acquire 7 [''a''], Release 0, Release 0] (init_state, [])
     = Return (\<lparr>TensorCount = 1, AllocatedMem = 0, ExistingTensors = {''a''}, lock = False,
                logged = [], calls = [CallAtFree 7, CallAtFree 7]\<rparr>,
               [\<lparr>name = ''a'', ctensor = 7, calledFrom = ''newTensor()''\<rparr>])
   \<and> run quiet_env [Acquire 7 [''a''], Acquire 8 [''a_000000003''], Acquire 9 [''a''],
                     Release 1, Release 2] (init_state, [])
     = Return (\<lparr>TensorCount = 3, AllocatedMem = 0, ExistingTensors = {''a''}, lock = False,
                logged = [WarnDoubleFree ''a_000000003'' ''newTensor()''],
                calls = [CallAtFree 8]\<rparr>,
               [\<lparr>name = ''a'', ctensor = 7, calledFrom = ''newTensor()''\<rparr>,
                \<lparr>name = ''a_000000003'', ctensor = 0, calledFrom = ''newTensor()''\<rparr>,
                \<lparr>name = ''a_000000003'', ctensor = 9, calledFrom = ''newTensor()''\<rparr>])
   \<and> run quiet_env [Acquire 7 [''a''], Acquire 8 [''a_000000003''], Acquire 9 [''a''],
                     Release 1, Release 2, Acquire 10 [''a_000000003''], Release 2]
          (init_state, [])
     = Return (\<lparr>TensorCount = 4, AllocatedMem = 0, ExistingTensors = {''a''}, lock = False,
                logged = [WarnDoubleFree ''a_000000003'' ''newTensor()''],
                calls = [CallAtFree 8, CallAtFree 9]\<rparr>,
               [\<lparr>name = ''a'', ctensor = 7, calledFrom = ''newTensor()''\<rparr>,
                \<lparr>name = ''a_000000003'', ctensor = 0, calledFrom = ''newTensor()''\<rparr>,
                \<lparr>name = ''a_000000003'', ctensor = 0, calledFrom = ''newTensor()''\<rparr>,
                \<lparr>name = ''a_000000003'', ctensor = 10, calledFrom = ''newTensor()''\<rparr>])"
proof -
  have z: "replicate 8 CHR ''0'' = ''00000000''" by (simp add: eval_nat_numeral)
  have f: "sprintf_09d 3 = ''000000003''"
    by (simp add: sprintf_09d_def zero_pad_def decimal.simps digit_def z)
  have r1: "run quiet_env [Acquire 7 [''a''], Release 0, DropOp 0, Release 0] (init_state, [])
     = Return (\<lparr>TensorCount = 1, AllocatedMem = 0, ExistingTensors = {}, lock = False,
                logged = [], calls = [CallAtFree 7]\<rparr>,
               [\<lparr>name = ''a'', ctensor = 0, calledFrom = ''newTensor()''\<rparr>])"
    by (simp add: init_state_def quiet_env_def nil_def Lock_def Unlock_def
        freeCTensor_locked_def debug_release_def call_def newTensor_def newName_def Let_def
        pointer_def store_def Drop_def)
  have r2: "run failing_free_env [Acquire 7 [''a''], Release 0, Release 0] (init_state, [])
     = Return (\<lparr>TensorCount = 1, AllocatedMem = 0, ExistingTensors = {''a''}, lock = False,
                logged = [], calls = [CallAtFree 7, CallAtFree 7]\<rparr>,
               [\<lparr>name = ''a'', ctensor = 7, calledFrom = ''newTensor()''\<rparr>])"
    by (simp add: init_state_def failing_free_env_def quiet_env_def nil_def Lock_def Unlock_def
        freeCTensor_locked_def debug_release_def call_def newTensor_def newName_def Let_def
        pointer_def store_def)
  have r3: "run quiet_env [Acquire 7 [''a''], Acquire 8 [''a_000000003''], Acquire 9 [''a''],
                     Release 1, Release 2] (init_state, [])
     = Return (\<lparr>TensorCount = 3, AllocatedMem = 0, ExistingTensors = {''a''}, lock = False,
                logged = [WarnDoubleFree ''a_000000003'' ''newTensor()''],
                calls = [CallAtFree 8]\<rparr>,
               [\<lparr>name = ''a'', ctensor = 7, calledFrom = ''newTensor()''\<rparr>,
                \<lparr>name = ''a_000000003'', ctensor = 0, calledFrom = ''newTensor()''\<rparr>,
                \<lparr>name = ''a_000000003'', ctensor = 9, calledFrom = ''newTensor()''\<rparr>])"
    by (simp add: init_state_def quiet_env_def nil_def Lock_def Unlock_def
        freeCTensor_locked_def debug_release_def call_def newTensor_def newName_def Let_def
        pointer_def store_def f)
  have r4: "run quiet_env [Acquire 7 [''a''], Acquire 8 [''a_000000003''], Acquire 9 [''a''],
                     Release 1, Release 2, Acquire 10 [''a_000000003''], Release 2]
          (init_state, [])
     = Return (\<lparr>TensorCount = 4, AllocatedMem = 0, ExistingTensors = {''a''}, lock = False,
                logged = [WarnDoubleFree ''a_000000003'' ''newTensor()''],
                calls = [CallAtFree 8, CallAtFree 9]\<rparr>,
               [\<lparr>name = ''a'', ctensor = 7, calledFrom = ''newTensor()''\<rparr>,
                \<lparr>name = ''a_000000003'', ctensor = 0, calledFrom = ''newTensor()''\<rparr>,
                \<lparr>name = ''a_000000003'', ctensor = 0, calledFrom = ''newTensor()''\<rparr>,
                \<lparr>name = ''a_000000003'', ctensor = 10, calledFrom = ''newTensor()''\<rparr>])"
    by (simp add: init_state_def quiet_env_def nil_def Lock_def Unlock_def
        freeCTensor_locked_def debug_release_def call_def newTensor_def newName_def Let_def
        pointer_def store_def f)
  from r1 r2 r3 r4 show ?thesis by (intro conjI)
qed

subsection \<open>What a sequence leaves as it was\<close>

lemma freeCTensor_summary:
  assumes "freeCTensor env (Some ts) s = Return (e, p, s')"
  shows "\<exists>ts' cs. p = Some ts' \<and> name ts' = name ts
     \<and> (ts' = ts \<or> ts' = ts\<lparr>ctensor := nil\<rparr>)
     \<and> lock s' = lock s \<and> TensorCount s' = TensorCount s
     \<and> ExistingTensors s - {name ts} \<subseteq> ExistingTensors s'
     \<and> calls s' = calls s @ cs
     \<and> (\<forall>c'. CallAtFree c' \<in> set cs \<longrightarrow> c' = ctensor ts \<and> c' \<noteq> nil)"
proof (cases "ctensor ts = nil")
  case True
  with assms show ?thesis by auto
next
  case False
  with assms freeCTensor_blocked [of ts s env] have nl: "\<not> lock s" by auto
  show ?thesis
  proof (cases "name ts \<in> ExistingTensors s")
    case False
    from freeCTensor_absent [OF \<open>ctensor ts \<noteq> nil\<close> nl False, of env] assms
    show ?thesis by auto
  next
    case True
    from freeCTensor_present [OF False nl True, of env] obtain cs m l where
      cs: "\<forall>c. CallAtFree c \<notin> set cs" and
      f: "freeCTensor env (Some ts) s =
        (case AtFreeErr env (calls s @ cs) (ctensor ts) of
           Some e \<Rightarrow>
             Return (Some (ReleaseFailed (name ts) (TorchError e)), Some ts,
                     s\<lparr>AllocatedMem := m, logged := l,
                       calls := calls s @ cs @ [CallAtFree (ctensor ts)]\<rparr>)
         | None \<Rightarrow>
             Return (None, Some (ts\<lparr>ctensor := nil\<rparr>),
                     s\<lparr>AllocatedMem := m, logged := l,
                       calls := calls s @ cs @ [CallAtFree (ctensor ts)],
                       ExistingTensors := ExistingTensors s - {name ts}\<rparr>))"
      by blast
    have k: "\<forall>c'. CallAtFree c' \<in> set (cs @ [CallAtFree (ctensor ts)])
        \<longrightarrow> c' = ctensor ts \<and> c' \<noteq> nil"
      using cs False by auto
    show ?thesis
    proof (cases "AtFreeErr env (calls s @ cs) (ctensor ts)")
      case None
      with f assms have "p = Some (ts\<lparr>ctensor := nil\<rparr>)"
        and "s' = s\<lparr>AllocatedMem := m, logged := l,
                       calls := calls s @ cs @ [CallAtFree (ctensor ts)],
                       ExistingTensors := ExistingTensors s - {name ts}\<rparr>" by simp_all
      with k show ?thesis by simp
    next
      case (Some a)
      with f assms have "p = Some ts"
        and "s' = s\<lparr>AllocatedMem := m, logged := l,
                       calls := calls s @ cs @ [CallAtFree (ctensor ts)]\<rparr>" by simp_all
      with k show ?thesis by auto
    qed
  qed
qed

lemma Drop_summary:
  assumes "Drop env ts s = Return (e, p, s')"
  shows "\<exists>ts' cs. p = Some ts' \<and> name ts' = name ts
     \<and> (ctensor ts' = ctensor ts \<or> ctensor ts' = nil)
     \<and> lock s' = lock s \<and> TensorCount s' = TensorCount s
     \<and> ExistingTensors s - {name ts} \<subseteq> ExistingTensors s'
     \<and> calls s' = calls s @ cs
     \<and> (\<forall>c'. CallAtFree c' \<in> set cs \<longrightarrow> c' = ctensor ts \<and> c' \<noteq> nil)"
proof (cases "ctensor ts = nil")
  case True
  with assms show ?thesis by (auto simp: Drop_nil)
next
  case False
  with assms have "freeCTensor env (Some (ts\<lparr>calledFrom := ''ts.Drop()''\<rparr>)) s = Return (e, p, s')"
    by (simp add: Drop_live)
  from freeCTensor_summary [OF this] show ?thesis by auto
qed

lemma step_summary:
  assumes "step env x (s, objs) = Return (s', objs')"
  shows "length objs' = length objs + acquires [x]"
    and "\<forall>i<length objs. name (objs' ! i) = name (objs ! i)"
    and "\<forall>i<length objs. i \<notin> set (released [x]) \<longrightarrow> objs' ! i = objs ! i"
    and "\<forall>i. length objs \<le> i \<and> i < length objs' \<longrightarrow> ctensor (objs' ! i) \<in> set (handles [x])"
    and "lock s' = lock s"
    and "TensorCount s' = TensorCount s + of_nat (acquires [x])"
    and "\<forall>n. n \<in> ExistingTensors s
            \<and> (\<forall>j\<in>set (released [x]). j < length objs \<longrightarrow> name (objs ! j) \<noteq> n)
          \<longrightarrow> n \<in> ExistingTensors s'"
    and "\<exists>cs. calls s' = calls s @ cs
          \<and> (\<forall>c'. CallAtFree c' \<in> set cs \<longrightarrow> c' \<noteq> nil
                \<and> (\<exists>j\<in>set (released [x]). j < length objs \<and> ctensor (objs ! j) = c'))"
proof -
  have "length objs' = length objs + acquires [x]
    \<and> (\<forall>i<length objs. name (objs' ! i) = name (objs ! i))
    \<and> (\<forall>i<length objs. i \<notin> set (released [x]) \<longrightarrow> objs' ! i = objs ! i)
    \<and> (\<forall>i. length objs \<le> i \<and> i < length objs' \<longrightarrow> ctensor (objs' ! i) \<in> set (handles [x]))
    \<and> lock s' = lock s
    \<and> TensorCount s' = TensorCount s + of_nat (acquires [x])
    \<and> (\<forall>n. n \<in> ExistingTensors s
            \<and> (\<forall>j\<in>set (released [x]). j < length objs \<longrightarrow> name (objs ! j) \<noteq> n)
          \<longrightarrow> n \<in> ExistingTensors s')
    \<and> (\<exists>cs. calls s' = calls s @ cs
          \<and> (\<forall>c'. CallAtFree c' \<in> set cs \<longrightarrow> c' \<noteq> nil
                \<and> (\<exists>j\<in>set (released [x]). j < length objs \<and> ctensor (objs ! j) = c')))"
  proof (cases x)
    case (Acquire c nameOpt)
    with assms obtain t where n: "newTensor env c nameOpt s = Return (t, s')"
      and o: "objs' = objs @ [t]"
      by (auto dest!: obind_Return)
    note r = newTensor_Return [OF n]
    from r(8) obtain cs where "calls s' = calls s @ cs" "\<forall>c. CallAtFree c \<notin> set cs" by blast
    then have "\<exists>cs. calls s' = calls s @ cs
          \<and> (\<forall>c'. CallAtFree c' \<in> set cs \<longrightarrow> c' \<noteq> nil
                \<and> (\<exists>j\<in>set (released [x]). j < length objs \<and> ctensor (objs ! j) = c'))"
      by blast
    moreover have "\<forall>i. length objs \<le> i \<and> i < length objs' \<longrightarrow> ctensor (objs' ! i) \<in> set (handles [x])"
    proof (intro allI impI)
      fix i assume "length objs \<le> i \<and> i < length objs'"
      with o have "i = length objs" by simp
      with o r(4) Acquire show "ctensor (objs' ! i) \<in> set (handles [x])" by simp
    qed
    ultimately show ?thesis using o r(1,2,3,6) Acquire by (simp add: nth_append)
  next
    case (Release j)
    with assms obtain e p where f: "freeCTensor env (pointer objs j) s = Return (e, p, s')"
      and o: "objs' = store objs j p"
      by (auto dest!: obind_Return)
    show ?thesis
    proof (cases "j < length objs")
      case False
      with f o Release show ?thesis by (simp add: pointer_def store_def)
    next
      case True
      with f have "freeCTensor env (Some (objs ! j)) s = Return (e, p, s')" by (simp add: pointer_def)
      from freeCTensor_summary [OF this] obtain ts' cs where
        p: "p = Some ts'" and nm: "name ts' = name (objs ! j)"
        and l: "lock s' = lock s" and tc: "TensorCount s' = TensorCount s"
        and ex: "ExistingTensors s - {name (objs ! j)} \<subseteq> ExistingTensors s'"
        and cl: "calls s' = calls s @ cs"
        and cf: "\<forall>c'. CallAtFree c' \<in> set cs \<longrightarrow> c' = ctensor (objs ! j) \<and> c' \<noteq> nil"
        by blast
      from o p have o': "objs' = objs[j := ts']" by (simp add: store_def)
      have a: "\<forall>i<length objs. name (objs' ! i) = name (objs ! i)"
        using nm True by (auto simp: o' nth_list_update)
      have b: "\<forall>n. n \<in> ExistingTensors s
            \<and> (\<forall>j\<in>set (released [x]). j < length objs \<longrightarrow> name (objs ! j) \<noteq> n)
          \<longrightarrow> n \<in> ExistingTensors s'"
        using ex Release True by auto
      have c: "\<exists>cs. calls s' = calls s @ cs
          \<and> (\<forall>c'. CallAtFree c' \<in> set cs \<longrightarrow> c' \<noteq> nil
                \<and> (\<exists>j\<in>set (released [x]). j < length objs \<and> ctensor (objs ! j) = c'))"
        using cl cf Release True by auto
      from a b c o' l tc Release show ?thesis by simp
    qed
  next
    case (DropOp j)
    show ?thesis
    proof (cases "j < length objs")
      case False
      with assms DropOp show ?thesis by (simp add: pointer_def)
    next
      case True
      with assms DropOp obtain e p where f: "Drop env (objs ! j) s = Return (e, p, s')"
        and o: "objs' = store objs j p"
        by (auto simp: pointer_def dest!: obind_Return)
      from Drop_summary [OF f] obtain ts' cs where
        p: "p = Some ts'" and nm: "name ts' = name (objs ! j)"
        and l: "lock s' = lock s" and tc: "TensorCount s' = TensorCount s"
        and ex: "ExistingTensors s - {name (objs ! j)} \<subseteq> ExistingTensors s'"
        and cl: "calls s' = calls s @ cs"
        and cf: "\<forall>c'. CallAtFree c' \<in> set cs \<longrightarrow> c' = ctensor (objs ! j) \<and> c' \<noteq> nil"
        by blast
      from o p have o': "objs' = objs[j := ts']" by (simp add: store_def)
      have a: "\<forall>i<length objs. name (objs' ! i) = name (objs ! i)"
        using nm True by (auto simp: o' nth_list_update)
      have b: "\<forall>n. n \<in> ExistingTensors s
            \<and> (\<forall>j\<in>set (released [x]). j < length objs \<longrightarrow> name (objs ! j) \<noteq> n)
          \<longrightarrow> n \<in> ExistingTensors s'"
        using ex DropOp True by auto
      have c: "\<exists>cs. calls s' = calls s @ cs
          \<and> (\<forall>c'. CallAtFree c' \<in> set cs \<longrightarrow> c' \<noteq> nil
                \<and> (\<exists>j\<in>set (released [x]). j < length objs \<and> ctensor (objs ! j) = c'))"
        using cl cf DropOp True by auto
      from a b c o' l tc DropOp show ?thesis by simp
    qed
  qed
  then show "length objs' = length objs + acquires [x]"
    and "\<forall>i<length objs. name (objs' ! i) = name (objs ! i)"
    and "\<forall>i<length objs. i \<notin> set (released [x]) \<longrightarrow> objs' ! i = objs ! i"
    and "\<forall>i. length objs \<le> i \<and> i < length objs' \<longrightarrow> ctensor (objs' ! i) \<in> set (handles [x])"
    and "lock s' = lock s"
    and "TensorCount s' = TensorCount s + of_nat (acquires [x])"
    and "\<forall>n. n \<in> ExistingTensors s
            \<and> (\<forall>j\<in>set (released [x]). j < length objs \<longrightarrow> name (objs ! j) \<noteq> n)
          \<longrightarrow> n \<in> ExistingTensors s'"
    and "\<exists>cs. calls s' = calls s @ cs
          \<and> (\<forall>c'. CallAtFree c' \<in> set cs \<longrightarrow> c' \<noteq> nil
                \<and> (\<exists>j\<in>set (released [x]). j < length objs \<and> ctensor (objs ! j) = c'))"
    by blast+
qed


lemma run_summary:
  "run env xs (s, objs) = Return (s', objs') \<Longrightarrow>
     length objs' = length objs + acquires xs
   \<and> (\<forall>i<length objs. name (objs' ! i) = name (objs ! i))
   \<and> (\<forall>i<length objs. i \<notin> set (released xs) \<longrightarrow> objs' ! i = objs ! i)
   \<and> lock s' = lock s
   \<and> TensorCount s' = TensorCount s + of_nat (acquires xs)
   \<and> (\<forall>n. n \<in> ExistingTensors s
          \<and> (\<forall>j\<in>set (released xs). j < length objs' \<longrightarrow> name (objs' ! j) \<noteq> n)
        \<longrightarrow> n \<in> ExistingTensors s')
   \<and> (\<exists>cs. calls s' = calls s @ cs
        \<and> (\<forall>c'. CallAtFree c' \<in> set cs \<longrightarrow> c' \<noteq> nil
              \<and> (c' \<in> set (handles xs)
                  \<or> (\<exists>j\<in>set (released xs). j < length objs \<and> ctensor (objs ! j) = c'))))"
proof (induction xs arbitrary: s objs)
  case Nil
  then show ?case by simp
next
  case (Cons x xs)
  from Cons.prems obtain w where st: "step env x (s, objs) = Return w"
    and rest: "run env xs w = Return (s', objs')"
    by (auto dest!: obind_Return)
  obtain s1 objs1 where w: "w = (s1, objs1)" by (cases w)
  note a = step_summary [OF st [unfolded w]]
  note h = step_handles [OF st [unfolded w]]
  from Cons.IH [OF rest [unfolded w]]
  have b1: "length objs' = length objs1 + acquires xs"
    and b2: "\<forall>i<length objs1. name (objs' ! i) = name (objs1 ! i)"
    and b3: "\<forall>i<length objs1. i \<notin> set (released xs) \<longrightarrow> objs' ! i = objs1 ! i"
    and b4: "lock s' = lock s1"
    and b5: "TensorCount s' = TensorCount s1 + of_nat (acquires xs)"
    and b6: "\<forall>n. n \<in> ExistingTensors s1
          \<and> (\<forall>j\<in>set (released xs). j < length objs' \<longrightarrow> name (objs' ! j) \<noteq> n)
        \<longrightarrow> n \<in> ExistingTensors s'"
    and b7: "\<exists>cs. calls s' = calls s1 @ cs
        \<and> (\<forall>c'. CallAtFree c' \<in> set cs \<longrightarrow> c' \<noteq> nil
              \<and> (c' \<in> set (handles xs)
                  \<or> (\<exists>j\<in>set (released xs). j < length objs1 \<and> ctensor (objs1 ! j) = c')))"
    by blast+
  have le: "length objs \<le> length objs1" using a(1) by simp
  have c1: "length objs' = length objs + acquires (x # xs)"
    using a(1) b1 by (simp add: acquires_Cons [of x xs])
  have c2: "\<forall>i<length objs. name (objs' ! i) = name (objs ! i)"
    using a(2) b2 le by auto
  have c3: "\<forall>i<length objs. i \<notin> set (released (x # xs)) \<longrightarrow> objs' ! i = objs ! i"
    using a(3) b3 le by (auto simp: released_Cons [of x xs])
  have c4: "lock s' = lock s" using a(5) b4 by simp
  have c5: "TensorCount s' = TensorCount s + of_nat (acquires (x # xs))"
    using a(6) b5 by (simp add: acquires_Cons [of x xs])
  have c6: "\<forall>n. n \<in> ExistingTensors s
          \<and> (\<forall>j\<in>set (released (x # xs)). j < length objs' \<longrightarrow> name (objs' ! j) \<noteq> n)
        \<longrightarrow> n \<in> ExistingTensors s'"
  proof (intro allI impI)
    fix n
    assume n: "n \<in> ExistingTensors s
          \<and> (\<forall>j\<in>set (released (x # xs)). j < length objs' \<longrightarrow> name (objs' ! j) \<noteq> n)"
    have "\<forall>j\<in>set (released [x]). j < length objs \<longrightarrow> name (objs ! j) \<noteq> n"
    proof (intro ballI impI)
      fix j assume j: "j \<in> set (released [x])" "j < length objs"
      then have "j \<in> set (released (x # xs))" by (simp add: released_Cons [of x xs])
      moreover from j c1 have "j < length objs'" by simp
      ultimately have "name (objs' ! j) \<noteq> n" using n by blast
      with c2 j show "name (objs ! j) \<noteq> n" by simp
    qed
    with a(7) n have "n \<in> ExistingTensors s1" by blast
    moreover have "\<forall>j\<in>set (released xs). j < length objs' \<longrightarrow> name (objs' ! j) \<noteq> n"
      using n by (simp add: released_Cons [of x xs])
    ultimately show "n \<in> ExistingTensors s'" using b6 by blast
  qed
  from a(8) obtain cs1 where k1: "calls s1 = calls s @ cs1"
    and k2: "\<forall>c'. CallAtFree c' \<in> set cs1 \<longrightarrow> c' \<noteq> nil
                \<and> (\<exists>j\<in>set (released [x]). j < length objs \<and> ctensor (objs ! j) = c')"
    by blast
  from b7 obtain cs2 where k3: "calls s' = calls s1 @ cs2"
    and k4: "\<forall>c'. CallAtFree c' \<in> set cs2 \<longrightarrow> c' \<noteq> nil
              \<and> (c' \<in> set (handles xs)
                  \<or> (\<exists>j\<in>set (released xs). j < length objs1 \<and> ctensor (objs1 ! j) = c'))"
    by blast
  have k5: "calls s' = calls s @ (cs1 @ cs2)" using k1 k3 by simp
  have k6: "\<forall>c'. CallAtFree c' \<in> set (cs1 @ cs2) \<longrightarrow> c' \<noteq> nil
              \<and> (c' \<in> set (handles (x # xs))
                  \<or> (\<exists>j\<in>set (released (x # xs)). j < length objs \<and> ctensor (objs ! j) = c'))"
  proof (intro allI impI)
    fix c' assume "CallAtFree c' \<in> set (cs1 @ cs2)"
    then have "CallAtFree c' \<in> set cs1 \<or> CallAtFree c' \<in> set cs2" by simp
    then show "c' \<noteq> nil
              \<and> (c' \<in> set (handles (x # xs))
                  \<or> (\<exists>j\<in>set (released (x # xs)). j < length objs \<and> ctensor (objs ! j) = c'))"
    proof
      assume "CallAtFree c' \<in> set cs1"
      with k2 have "c' \<noteq> nil"
        and "\<exists>j\<in>set (released [x]). j < length objs \<and> ctensor (objs ! j) = c'" by blast+
      then show ?thesis by (auto simp: released_Cons [of x xs])
    next
      assume "CallAtFree c' \<in> set cs2"
      with k4 have nn: "c' \<noteq> nil"
        and d: "c' \<in> set (handles xs)
                  \<or> (\<exists>j\<in>set (released xs). j < length objs1 \<and> ctensor (objs1 ! j) = c')"
        by blast+
      from d show ?thesis
      proof
        assume "c' \<in> set (handles xs)"
        with nn show ?thesis by (simp add: handles_Cons [of x xs])
      next
        assume "\<exists>j\<in>set (released xs). j < length objs1 \<and> ctensor (objs1 ! j) = c'"
        then obtain j where j: "j \<in> set (released xs)" "j < length objs1"
          "ctensor (objs1 ! j) = c'" by blast
        show ?thesis
        proof (cases "j < length objs")
          case True
          with h have "ctensor (objs1 ! j) = ctensor (objs ! j) \<or> ctensor (objs1 ! j) = nil"
            by blast
          with j(3) nn have "ctensor (objs ! j) = c'" by auto
          with True j(1) nn show ?thesis by (auto simp: released_Cons [of x xs])
        next
          case False
          with a(4) j(2) have "ctensor (objs1 ! j) \<in> set (handles [x])" by simp
          with j(3) nn show ?thesis by (simp add: handles_Cons [of x xs])
        qed
      qed
    qed
  qed
  from k5 k6 have c7: "\<exists>cs. calls s' = calls s @ cs
        \<and> (\<forall>c'. CallAtFree c' \<in> set cs \<longrightarrow> c' \<noteq> nil
              \<and> (c' \<in> set (handles (x # xs))
                  \<or> (\<exists>j\<in>set (released (x # xs)). j < length objs \<and> ctensor (objs ! j) = c')))"
    by blast
  from c1 c2 c3 c4 c5 c6 c7 show ?case by (intro conjI)
qed

subsection \<open>One acquire, one release\<close>

lemma release_registered:
  assumes "ctensor t \<noteq> nil" and "\<not> lock sr" and "name t \<in> ExistingTensors sr"
    and "\<forall>h. AtFreeErr env h (ctensor t) = None"
  shows "\<exists>s3. freeCTensor env (Some t) sr = Return (None, Some (t\<lparr>ctensor := nil\<rparr>), s3)
     \<and> Drop env t sr
         = Return (None, Some (t\<lparr>calledFrom := ''ts.Drop()'', ctensor := nil\<rparr>), s3)
     \<and> ExistingTensors s3 = ExistingTensors sr - {name t}
     \<and> count_list (calls s3) (CallAtFree (ctensor t))
         = Suc (count_list (calls sr) (CallAtFree (ctensor t)))"
proof -
  from freeCTensor_present [OF assms(1,2,3), of env] obtain cs m l where
    cs: "\<forall>c. CallAtFree c \<notin> set cs" and
    f: "freeCTensor env (Some t) sr =
        (case AtFreeErr env (calls sr @ cs) (ctensor t) of
           Some e \<Rightarrow>
             Return (Some (ReleaseFailed (name t) (TorchError e)), Some t,
                     sr\<lparr>AllocatedMem := m, logged := l,
                       calls := calls sr @ cs @ [CallAtFree (ctensor t)]\<rparr>)
         | None \<Rightarrow>
             Return (None, Some (t\<lparr>ctensor := nil\<rparr>),
                     sr\<lparr>AllocatedMem := m, logged := l,
                       calls := calls sr @ cs @ [CallAtFree (ctensor t)],
                       ExistingTensors := ExistingTensors sr - {name t}\<rparr>))"
    by blast
  define s3 where "s3 = sr\<lparr>AllocatedMem := m, logged := l,
                       calls := calls sr @ cs @ [CallAtFree (ctensor t)],
                       ExistingTensors := ExistingTensors sr - {name t}\<rparr>"
  have ok: "AtFreeErr env (calls sr @ cs) (ctensor t) = None" using assms(4) by simp
  have f1: "freeCTensor env (Some t) sr = Return (None, Some (t\<lparr>ctensor := nil\<rparr>), s3)"
    using f ok by (simp add: s3_def)
  have d1: "Drop env t sr
      = Return (None, Some (t\<lparr>calledFrom := ''ts.Drop()'', ctensor := nil\<rparr>), s3)"
    using freeCTensor_calledFrom [OF assms(3) f1, of "''ts.Drop()''"] assms(1)
    by (simp add: Drop_live)
  have c: "count_list (calls s3) (CallAtFree (ctensor t))
      = Suc (count_list (calls sr) (CallAtFree (ctensor t)))"
    using cs by (simp add: s3_def)
  have "ExistingTensors s3 = ExistingTensors sr - {name t}" by (simp add: s3_def)
  with f1 d1 c show ?thesis by blast
qed

lemma run_no_free:
  assumes "run env xs (s, objs) = Return (s', objs')" and "c \<notin> set (handles xs)"
    and "\<forall>j\<in>set (released xs). j < length objs \<longrightarrow> ctensor (objs ! j) \<noteq> c"
  shows "count_list (calls s') (CallAtFree c) = count_list (calls s) (CallAtFree c)"
proof -
  from run_summary [OF assms(1)] obtain cs where k: "calls s' = calls s @ cs"
    and f: "\<forall>c'. CallAtFree c' \<in> set cs \<longrightarrow> c' \<noteq> nil
              \<and> (c' \<in> set (handles xs)
                  \<or> (\<exists>j\<in>set (released xs). j < length objs \<and> ctensor (objs ! j) = c'))"
    by blast
  from f assms(2,3) have "CallAtFree c \<notin> set cs" by blast
  with k show ?thesis by simp
qed

lemma lifetime:
  assumes n: "newTensor env c nameOpt s = Return (t, s1)"
    and r: "run env xs (s1, objs @ [t]) = Return (s2, objs2)"
    and own: "length objs \<notin> set (released xs)"
    and h1: "c \<notin> set (handles xs)"
    and h2: "\<forall>j\<in>set (released xs). j < length objs \<longrightarrow> ctensor (objs ! j) \<noteq> c"
  shows "objs2 ! length objs = t" and "\<not> lock s2"
    and "count_list (calls s2) (CallAtFree c) = count_list (calls s) (CallAtFree c)"
proof -
  note a = newTensor_Return [OF n]
  note b = run_summary [OF r]
  from b own have "objs2 ! length objs = (objs @ [t]) ! length objs" by simp
  then show "objs2 ! length objs = t" by simp
  from b a(2) show "\<not> lock s2" by simp
  have "\<forall>j\<in>set (released xs). j < length (objs @ [t]) \<longrightarrow> ctensor ((objs @ [t]) ! j) \<noteq> c"
  proof (intro ballI impI)
    fix j assume j: "j \<in> set (released xs)" "j < length (objs @ [t])"
    with own have "j < length objs" by (cases "j = length objs") auto
    with h2 j(1) show "ctensor ((objs @ [t]) ! j) \<noteq> c" by (simp add: nth_append)
  qed
  from run_no_free [OF r h1 this] a(8)
  show "count_list (calls s2) (CallAtFree c) = count_list (calls s) (CallAtFree c)"
    by auto
qed

lemma after_release:
  assumes "run env ys (s3, objs3) = Return (s4, objs4)"
    and "i < length objs3" and "ctensor (objs3 ! i) = nil" and "c \<noteq> nil"
    and "c \<notin> set (handles ys)"
    and "\<forall>j\<in>set (released ys). j < length objs3 \<and> j \<noteq> i \<longrightarrow> ctensor (objs3 ! j) \<noteq> c"
  shows "count_list (calls s4) (CallAtFree c) = count_list (calls s3) (CallAtFree c)
     \<and> ctensor (objs4 ! i) = nil"
proof -
  have "\<forall>j\<in>set (released ys). j < length objs3 \<longrightarrow> ctensor (objs3 ! j) \<noteq> c"
    using assms(3,4,6) by metis
  from run_no_free [OF assms(1,5) this] run_handles [OF assms(1)] assms(2,3)
  show ?thesis by auto
qed

lemma run_keeps_entry:
  assumes "run env xs (s, objs) = Return (s', objs')" and "n \<in> ExistingTensors s"
    and "\<forall>j\<in>set (released xs). j < length objs' \<longrightarrow> name (objs' ! j) \<noteq> n"
  shows "n \<in> ExistingTensors s'"
  using run_summary [OF assms(1)] assms(2,3) by blast

text \<open>
  C3 (as amended). Let \<open>c\<close> be a handle that is not \<open>nil\<close>, and let the engine report no
  error after \<open>lib.AtFree\<close> on it. A release (\<open>freeCTensor\<close> or \<open>Drop\<close>) of a wrapper of \<open>c\<close>,
  made in any state in which the mutex is free and the wrapper's name is in the
  registry, returns \<open>nil\<close>, clears the handle, removes the name from the registry and
  calls \<open>lib.AtFree\<close> on \<open>c\<close> exactly once. Over a lifetime: if the wrapper is acquired,
  any operations on other wrappers follow (none of them holding \<open>c\<close>), and the wrapper's
  name is in the registry when it is released, then from before the acquire to after the
  release \<open>lib.AtFree\<close> has been called on \<open>c\<close> exactly once, the name is no longer in
  the registry, and whatever follows (further releases of the wrapper included) adds no
  call of \<open>lib.AtFree\<close> on \<open>c\<close>. The name is in the registry at the release whenever no
  wrapper released in between has the same name.
\<close>

theorem acquire_release_once:
  assumes "c \<noteq> nil" and "\<forall>h. AtFreeErr env h c = None"
  shows "(\<forall>t sr. ctensor t = c \<and> \<not> lock sr \<and> name t \<in> ExistingTensors sr \<longrightarrow>
           (\<exists>s3. freeCTensor env (Some t) sr = Return (None, Some (t\<lparr>ctensor := nil\<rparr>), s3)
               \<and> Drop env t sr
                   = Return (None, Some (t\<lparr>calledFrom := ''ts.Drop()'', ctensor := nil\<rparr>), s3)
               \<and> ExistingTensors s3 = ExistingTensors sr - {name t}
               \<and> count_list (calls s3) (CallAtFree c)
                   = Suc (count_list (calls sr) (CallAtFree c))))
     \<and> (\<forall>nameOpt s t s1 xs objs s2 objs2.
           newTensor env c nameOpt s = Return (t, s1)
           \<and> run env xs (s1, objs @ [t]) = Return (s2, objs2)
           \<and> length objs \<notin> set (released xs) \<and> c \<notin> set (handles xs)
           \<and> (\<forall>j\<in>set (released xs). j < length objs \<longrightarrow> ctensor (objs ! j) \<noteq> c)
           \<and> name t \<in> ExistingTensors s2 \<longrightarrow>
           objs2 ! length objs = t
           \<and> (\<exists>s3. freeCTensor env (Some t) s2
                     = Return (None, Some (t\<lparr>ctensor := nil\<rparr>), s3)
                 \<and> Drop env t s2
                     = Return (None, Some (t\<lparr>calledFrom := ''ts.Drop()'', ctensor := nil\<rparr>), s3)
                 \<and> name t \<notin> ExistingTensors s3
                 \<and> count_list (calls s3) (CallAtFree c)
                     = Suc (count_list (calls s) (CallAtFree c))
                 \<and> (\<forall>ys objs3 s4 objs4.
                       run env ys (s3, objs3) = Return (s4, objs4)
                       \<and> length objs < length objs3 \<and> ctensor (objs3 ! length objs) = nil
                       \<and> c \<notin> set (handles ys)
                       \<and> (\<forall>j\<in>set (released ys). j < length objs3 \<and> j \<noteq> length objs
                              \<longrightarrow> ctensor (objs3 ! j) \<noteq> c) \<longrightarrow>
                       count_list (calls s4) (CallAtFree c)
                         = Suc (count_list (calls s) (CallAtFree c))
                       \<and> ctensor (objs4 ! length objs) = nil)))
     \<and> (\<forall>nameOpt s t s1 xs objs s2 objs2.
           newTensor env c nameOpt s = Return (t, s1)
           \<and> run env xs (s1, objs @ [t]) = Return (s2, objs2)
           \<and> (\<forall>j\<in>set (released xs). j < length objs2 \<longrightarrow> name (objs2 ! j) \<noteq> name t) \<longrightarrow>
           name t \<in> ExistingTensors s2)"
proof (intro conjI)
  show "\<forall>t sr. ctensor t = c \<and> \<not> lock sr \<and> name t \<in> ExistingTensors sr \<longrightarrow>
           (\<exists>s3. freeCTensor env (Some t) sr = Return (None, Some (t\<lparr>ctensor := nil\<rparr>), s3)
               \<and> Drop env t sr
                   = Return (None, Some (t\<lparr>calledFrom := ''ts.Drop()'', ctensor := nil\<rparr>), s3)
               \<and> ExistingTensors s3 = ExistingTensors sr - {name t}
               \<and> count_list (calls s3) (CallAtFree c)
                   = Suc (count_list (calls sr) (CallAtFree c)))"
  proof (intro allI impI)
    fix t :: Tensor and sr :: state
    assume h: "ctensor t = c \<and> \<not> lock sr \<and> name t \<in> ExistingTensors sr"
    with assms have "ctensor t \<noteq> nil" "\<not> lock sr" "name t \<in> ExistingTensors sr"
      "\<forall>h. AtFreeErr env h (ctensor t) = None" by simp_all
    from release_registered [OF this] h
    show "\<exists>s3. freeCTensor env (Some t) sr = Return (None, Some (t\<lparr>ctensor := nil\<rparr>), s3)
               \<and> Drop env t sr
                   = Return (None, Some (t\<lparr>calledFrom := ''ts.Drop()'', ctensor := nil\<rparr>), s3)
               \<and> ExistingTensors s3 = ExistingTensors sr - {name t}
               \<and> count_list (calls s3) (CallAtFree c)
                   = Suc (count_list (calls sr) (CallAtFree c))" by simp
  qed
  show "\<forall>nameOpt s t s1 xs objs s2 objs2.
           newTensor env c nameOpt s = Return (t, s1)
           \<and> run env xs (s1, objs @ [t]) = Return (s2, objs2)
           \<and> length objs \<notin> set (released xs) \<and> c \<notin> set (handles xs)
           \<and> (\<forall>j\<in>set (released xs). j < length objs \<longrightarrow> ctensor (objs ! j) \<noteq> c)
           \<and> name t \<in> ExistingTensors s2 \<longrightarrow>
           objs2 ! length objs = t
           \<and> (\<exists>s3. freeCTensor env (Some t) s2
                     = Return (None, Some (t\<lparr>ctensor := nil\<rparr>), s3)
                 \<and> Drop env t s2
                     = Return (None, Some (t\<lparr>calledFrom := ''ts.Drop()'', ctensor := nil\<rparr>), s3)
                 \<and> name t \<notin> ExistingTensors s3
                 \<and> count_list (calls s3) (CallAtFree c)
                     = Suc (count_list (calls s) (CallAtFree c))
                 \<and> (\<forall>ys objs3 s4 objs4.
                       run env ys (s3, objs3) = Return (s4, objs4)
                       \<and> length objs < length objs3 \<and> ctensor (objs3 ! length objs) = nil
                       \<and> c \<notin> set (handles ys)
                       \<and> (\<forall>j\<in>set (released ys). j < length objs3 \<and> j \<noteq> length objs
                              \<longrightarrow> ctensor (objs3 ! j) \<noteq> c) \<longrightarrow>
                       count_list (calls s4) (CallAtFree c)
                         = Suc (count_list (calls s) (CallAtFree c))
                       \<and> ctensor (objs4 ! length objs) = nil))"
  proof (intro allI impI)
    fix nameOpt s t s1 xs objs s2 objs2
    assume h: "newTensor env c nameOpt s = Return (t, s1)
           \<and> run env xs (s1, objs @ [t]) = Return (s2, objs2)
           \<and> length objs \<notin> set (released xs) \<and> c \<notin> set (handles xs)
           \<and> (\<forall>j\<in>set (released xs). j < length objs \<longrightarrow> ctensor (objs ! j) \<noteq> c)
           \<and> name t \<in> ExistingTensors s2"
    then have n: "newTensor env c nameOpt s = Return (t, s1)"
      and r: "run env xs (s1, objs @ [t]) = Return (s2, objs2)"
      and own: "length objs \<notin> set (released xs)" and h1: "c \<notin> set (handles xs)"
      and h2: "\<forall>j\<in>set (released xs). j < length objs \<longrightarrow> ctensor (objs ! j) \<noteq> c"
      and reg: "name t \<in> ExistingTensors s2" by blast+
    note l = lifetime [OF n r own h1 h2]
    from newTensor_Return(4) [OF n] have ct: "ctensor t = c" .
    with assms have "ctensor t \<noteq> nil" "\<forall>h. AtFreeErr env h (ctensor t) = None" by simp_all
    from release_registered [OF this(1) l(2) reg this(2)] obtain s3 where
      f: "freeCTensor env (Some t) s2 = Return (None, Some (t\<lparr>ctensor := nil\<rparr>), s3)"
      and d: "Drop env t s2
         = Return (None, Some (t\<lparr>calledFrom := ''ts.Drop()'', ctensor := nil\<rparr>), s3)"
      and e: "ExistingTensors s3 = ExistingTensors s2 - {name t}"
      and k: "count_list (calls s3) (CallAtFree (ctensor t))
         = Suc (count_list (calls s2) (CallAtFree (ctensor t)))" by blast
    from k l(3) ct have k': "count_list (calls s3) (CallAtFree c)
                     = Suc (count_list (calls s) (CallAtFree c))" by simp
    from e have e': "name t \<notin> ExistingTensors s3" by simp
    have tail: "\<forall>ys objs3 s4 objs4.
                       run env ys (s3, objs3) = Return (s4, objs4)
                       \<and> length objs < length objs3 \<and> ctensor (objs3 ! length objs) = nil
                       \<and> c \<notin> set (handles ys)
                       \<and> (\<forall>j\<in>set (released ys). j < length objs3 \<and> j \<noteq> length objs
                              \<longrightarrow> ctensor (objs3 ! j) \<noteq> c) \<longrightarrow>
                       count_list (calls s4) (CallAtFree c)
                         = Suc (count_list (calls s) (CallAtFree c))
                       \<and> ctensor (objs4 ! length objs) = nil"
    proof (intro allI impI)
      fix ys objs3 s4 objs4
      assume g: "run env ys (s3, objs3) = Return (s4, objs4)
                       \<and> length objs < length objs3 \<and> ctensor (objs3 ! length objs) = nil
                       \<and> c \<notin> set (handles ys)
                       \<and> (\<forall>j\<in>set (released ys). j < length objs3 \<and> j \<noteq> length objs
                              \<longrightarrow> ctensor (objs3 ! j) \<noteq> c)"
      then have g1: "run env ys (s3, objs3) = Return (s4, objs4)"
        and g2: "length objs < length objs3" and g3: "ctensor (objs3 ! length objs) = nil"
        and g4: "c \<notin> set (handles ys)"
        and g5: "\<forall>j\<in>set (released ys). j < length objs3 \<and> j \<noteq> length objs
                              \<longrightarrow> ctensor (objs3 ! j) \<noteq> c" by blast+
      from after_release [OF g1 g2 g3 assms(1) g4 g5] k'
      show "count_list (calls s4) (CallAtFree c)
                         = Suc (count_list (calls s) (CallAtFree c))
                       \<and> ctensor (objs4 ! length objs) = nil" by simp
    qed
    from l(1) f d e' k' tail
    show "objs2 ! length objs = t
           \<and> (\<exists>s3. freeCTensor env (Some t) s2
                     = Return (None, Some (t\<lparr>ctensor := nil\<rparr>), s3)
                 \<and> Drop env t s2
                     = Return (None, Some (t\<lparr>calledFrom := ''ts.Drop()'', ctensor := nil\<rparr>), s3)
                 \<and> name t \<notin> ExistingTensors s3
                 \<and> count_list (calls s3) (CallAtFree c)
                     = Suc (count_list (calls s) (CallAtFree c))
                 \<and> (\<forall>ys objs3 s4 objs4.
                       run env ys (s3, objs3) = Return (s4, objs4)
                       \<and> length objs < length objs3 \<and> ctensor (objs3 ! length objs) = nil
                       \<and> c \<notin> set (handles ys)
                       \<and> (\<forall>j\<in>set (released ys). j < length objs3 \<and> j \<noteq> length objs
                              \<longrightarrow> ctensor (objs3 ! j) \<noteq> c) \<longrightarrow>
                       count_list (calls s4) (CallAtFree c)
                         = Suc (count_list (calls s) (CallAtFree c))
                       \<and> ctensor (objs4 ! length objs) = nil))" by blast
  qed
  show "\<forall>nameOpt s t s1 xs objs s2 objs2.
           newTensor env c nameOpt s = Return (t, s1)
           \<and> run env xs (s1, objs @ [t]) = Return (s2, objs2)
           \<and> (\<forall>j\<in>set (released xs). j < length objs2 \<longrightarrow> name (objs2 ! j) \<noteq> name t) \<longrightarrow>
           name t \<in> ExistingTensors s2"
  proof (intro allI impI)
    fix nameOpt s t s1 xs objs s2 objs2
    assume h: "newTensor env c nameOpt s = Return (t, s1)
           \<and> run env xs (s1, objs @ [t]) = Return (s2, objs2)
           \<and> (\<forall>j\<in>set (released xs). j < length objs2 \<longrightarrow> name (objs2 ! j) \<noteq> name t)"
    then have n: "newTensor env c nameOpt s = Return (t, s1)"
      and r: "run env xs (s1, objs @ [t]) = Return (s2, objs2)"
      and q: "\<forall>j\<in>set (released xs). j < length objs2 \<longrightarrow> name (objs2 ! j) \<noteq> name t"
      by blast+
    from newTensor_Return(6) [OF n] have "name t \<in> ExistingTensors s1" by simp
    from run_keeps_entry [OF r this q] show "name t \<in> ExistingTensors s2" .
  qed
qed


theorem acquire_release_once_witness:
  "(7 :: Ctensor) \<noteq> nil \<and> (\<forall>h. AtFreeErr quiet_env h 7 = None)
   \<and> newTensor quiet_env 7 [''a''] init_state = Return (tensor_a, state_a)
   \<and> run quiet_env [Acquire 8 [''b''], Release 1] (state_a, [] @ [tensor_a])
       = Return (state_a\<lparr>TensorCount := 2, calls := [CallAtFree 8]\<rparr>,
           [tensor_a, \<lparr>name = ''b'', ctensor = nil, calledFrom = ''newTensor()''\<rparr>])
   \<and> length ([] :: Tensor list) \<notin> set (released [Acquire 8 [''b''], Release 1])
   \<and> 7 \<notin> set (handles [Acquire 8 [''b''], Release 1])
   \<and> released [Acquire 8 [''b''], Release 1] = [1]
   \<and> name tensor_a \<in> ExistingTensors (state_a\<lparr>TensorCount := 2, calls := [CallAtFree 8]\<rparr>)
   \<and> [tensor_a, \<lparr>name = ''b'', ctensor = nil, calledFrom = ''newTensor()''\<rparr>]
        ! length ([] :: Tensor list) = tensor_a
   \<and> (\<exists>s3. freeCTensor quiet_env (Some tensor_a)
               (state_a\<lparr>TensorCount := 2, calls := [CallAtFree 8]\<rparr>)
             = Return (None, Some (tensor_a\<lparr>ctensor := nil\<rparr>), s3)
          \<and> name tensor_a \<notin> ExistingTensors s3
          \<and> count_list (calls s3) (CallAtFree 7)
              = Suc (count_list (calls init_state) (CallAtFree 7)))
   \<and> freeCTensor quiet_env (Some tensor_a) (state_a\<lparr>TensorCount := 2, calls := [CallAtFree 8]\<rparr>)
       = Return (None, Some (tensor_a\<lparr>ctensor := nil\<rparr>),
           state_a\<lparr>TensorCount := 2, ExistingTensors := {},
                   calls := [CallAtFree 8, CallAtFree 7]\<rparr>)
   \<and> name ([tensor_a, \<lparr>name = ''b'', ctensor = nil, calledFrom = ''newTensor()''\<rparr>] ! 1)
        \<noteq> name tensor_a"
proof -
  let ?xs = "[Acquire 8 [''b''], Release 1]"
  let ?s2 = "state_a\<lparr>TensorCount := 2, calls := [CallAtFree 8]\<rparr>"
  let ?o2 = "[tensor_a, \<lparr>name = ''b'', ctensor = nil, calledFrom = ''newTensor()''\<rparr>]"
  have a: "(7 :: Ctensor) \<noteq> nil" by (simp add: nil_def)
  have b: "\<forall>h. AtFreeErr quiet_env h 7 = None" by (simp add: quiet_env_def)
  have n: "newTensor quiet_env 7 [''a''] init_state = Return (tensor_a, state_a)"
    by (simp add: newTensor_def quiet_env_def init_state_def tensor_a_def state_a_def Lock_def
        Unlock_def newName_def Let_def)
  have r: "run quiet_env ?xs (state_a, [] @ [tensor_a]) = Return (?s2, ?o2)"
    by (simp add: state_a_def tensor_a_def quiet_env_def nil_def Lock_def Unlock_def
        freeCTensor_locked_def debug_release_def call_def newTensor_def newName_def Let_def
        pointer_def store_def)
  have o: "length ([] :: Tensor list) \<notin> set (released ?xs)" by simp
  have h: "7 \<notin> set (handles ?xs)" by simp
  have g: "\<forall>j\<in>set (released ?xs). j < length ([] :: Tensor list) \<longrightarrow> ctensor ([] ! j) \<noteq> 7"
    by simp
  have e: "name tensor_a \<in> ExistingTensors ?s2" by (simp add: state_a_def tensor_a_def)
  have q: "\<forall>j\<in>set (released ?xs). j < length ?o2 \<longrightarrow> name (?o2 ! j) \<noteq> name tensor_a"
    by (simp add: tensor_a_def)
  have f: "freeCTensor quiet_env (Some tensor_a) ?s2
       = Return (None, Some (tensor_a\<lparr>ctensor := nil\<rparr>),
           state_a\<lparr>TensorCount := 2, ExistingTensors := {},
                   calls := [CallAtFree 8, CallAtFree 7]\<rparr>)"
    by (simp add: tensor_a_def state_a_def quiet_env_def nil_def Lock_def
        Unlock_def freeCTensor_locked_def debug_release_def call_def Let_def)
  note t = acquire_release_once [OF a b]
  have hyp: "newTensor quiet_env 7 [''a''] init_state = Return (tensor_a, state_a)
      \<and> run quiet_env ?xs (state_a, [] @ [tensor_a]) = Return (?s2, ?o2)
      \<and> length ([] :: Tensor list) \<notin> set (released ?xs) \<and> 7 \<notin> set (handles ?xs)
      \<and> (\<forall>j\<in>set (released ?xs). j < length ([] :: Tensor list) \<longrightarrow> ctensor ([] ! j) \<noteq> 7)
      \<and> name tensor_a \<in> ExistingTensors ?s2"
    using n r o h g e by (intro conjI)
  from t [THEN conjunct2, THEN conjunct1, rule_format, OF hyp]
  have 1: "?o2 ! length ([] :: Tensor list) = tensor_a"
    and 2: "\<exists>s3. freeCTensor quiet_env (Some tensor_a) ?s2
             = Return (None, Some (tensor_a\<lparr>ctensor := nil\<rparr>), s3)
          \<and> name tensor_a \<notin> ExistingTensors s3
          \<and> count_list (calls s3) (CallAtFree 7)
              = Suc (count_list (calls init_state) (CallAtFree 7))" by blast+
  have hyp3: "newTensor quiet_env 7 [''a''] init_state = Return (tensor_a, state_a)
      \<and> run quiet_env ?xs (state_a, [] @ [tensor_a]) = Return (?s2, ?o2)
      \<and> (\<forall>j\<in>set (released ?xs). j < length ?o2 \<longrightarrow> name (?o2 ! j) \<noteq> name tensor_a)"
    using n r q by (intro conjI)
  from t [THEN conjunct2, THEN conjunct2, rule_format, OF hyp3]
  have e3: "name tensor_a \<in> ExistingTensors ?s2" .
  have rl: "released ?xs = [1]" by simp
  have q': "name (?o2 ! 1) \<noteq> name tensor_a" by (simp add: tensor_a_def)
  from a b n r o h rl e3 1 2 f q' show ?thesis by (intro conjI)
qed

text \<open>
  C3 as stated fails in three ways, each for a wrapper acquired and then released once.
  When \<open>lib.AtFree\<close> reports an error, the release leaves \<open>"a"\<close> in the registry. A
  wrapper around the \<open>nil\<close> handle is released without any call of \<open>lib.AtFree\<close>, its
  name staying in the registry. The third wrapper of the last run is named like the
  second; when it is released the name is no longer in the registry, the release is
  skipped with the warning, and handle 9 is never passed to \<open>lib.AtFree\<close>.
\<close>

theorem acquire_release_once_counterexample:
  "run failing_free_env [Acquire 7 [''a''], Release 0] (init_state, [])
     = Return (\<lparr>TensorCount = 1, AllocatedMem = 0, ExistingTensors = {''a''}, lock = False,
                 logged = [], calls = [CallAtFree 7]\<rparr>,
               [\<lparr>name = ''a'', ctensor = 7, calledFrom = ''newTensor()''\<rparr>])
   \<and> run quiet_env [Acquire nil [''a''], DropOp 0] (init_state, [])
     = Return (\<lparr>TensorCount = 1, AllocatedMem = 0, ExistingTensors = {''a''}, lock = False,
                 logged = [], calls = []\<rparr>,
               [\<lparr>name = ''a'', ctensor = nil, calledFrom = ''newTensor()''\<rparr>])
   \<and> run quiet_env [Acquire 7 [''a''], Acquire 8 [''a_000000003''], Acquire 9 [''a''],
                     Release 0, Release 1, Release 2] (init_state, [])
     = Return (\<lparr>TensorCount = 3, AllocatedMem = 0, ExistingTensors = {}, lock = False,
                 logged = [WarnDoubleFree ''a_000000003'' ''newTensor()''],
                 calls = [CallAtFree 7, CallAtFree 8]\<rparr>,
               [\<lparr>name = ''a'', ctensor = 0, calledFrom = ''newTensor()''\<rparr>,
                \<lparr>name = ''a_000000003'', ctensor = 0, calledFrom = ''newTensor()''\<rparr>,
                \<lparr>name = ''a_000000003'', ctensor = 9, calledFrom = ''newTensor()''\<rparr>])"
proof -
  have z: "replicate 8 CHR ''0'' = ''00000000''" by (simp add: eval_nat_numeral)
  have f: "sprintf_09d 3 = ''000000003''"
    by (simp add: sprintf_09d_def zero_pad_def decimal.simps digit_def z)
  have r1: "run failing_free_env [Acquire 7 [''a''], Release 0] (init_state, [])
     = Return (\<lparr>TensorCount = 1, AllocatedMem = 0, ExistingTensors = {''a''}, lock = False,
                 logged = [], calls = [CallAtFree 7]\<rparr>,
               [\<lparr>name = ''a'', ctensor = 7, calledFrom = ''newTensor()''\<rparr>])"
    by (simp add: init_state_def failing_free_env_def quiet_env_def
      nil_def Lock_def Unlock_def freeCTensor_locked_def debug_release_def call_def
      newTensor_def newName_def Let_def pointer_def store_def)
  have r2: "run quiet_env [Acquire nil [''a''], DropOp 0] (init_state, [])
     = Return (\<lparr>TensorCount = 1, AllocatedMem = 0, ExistingTensors = {''a''}, lock = False,
                 logged = [], calls = []\<rparr>,
               [\<lparr>name = ''a'', ctensor = nil, calledFrom = ''newTensor()''\<rparr>])"
    by (simp add: init_state_def quiet_env_def
      nil_def Lock_def Unlock_def newTensor_def newName_def Let_def pointer_def store_def Drop_def)
  have r3: "run quiet_env [Acquire 7 [''a''], Acquire 8 [''a_000000003''], Acquire 9 [''a''],
                     Release 0, Release 1, Release 2] (init_state, [])
     = Return (\<lparr>TensorCount = 3, AllocatedMem = 0, ExistingTensors = {}, lock = False,
                 logged = [WarnDoubleFree ''a_000000003'' ''newTensor()''],
                 calls = [CallAtFree 7, CallAtFree 8]\<rparr>,
               [\<lparr>name = ''a'', ctensor = 0, calledFrom = ''newTensor()''\<rparr>,
                \<lparr>name = ''a_000000003'', ctensor = 0, calledFrom = ''newTensor()''\<rparr>,
                \<lparr>name = ''a_000000003'', ctensor = 9, calledFrom = ''newTensor()''\<rparr>])"
    by (auto simp add: init_state_def quiet_env_def nil_def Lock_def Unlock_def
        freeCTensor_locked_def debug_release_def call_def newTensor_def newName_def Let_def
        pointer_def store_def f)
  from r1 r2 r3 show ?thesis by (intro conjI)
qed

subsection \<open>The format \<open>%09d\<close> is one to one\<close>

lemma decimal_last: "decimal n \<noteq> [] \<and> last (decimal n) = digit (n mod 10)"
proof (cases "n < 10")
  case True
  then show ?thesis by (subst (1 2) decimal.simps) simp
next
  case False
  then show ?thesis by (subst (1 2) decimal.simps) simp
qed

lemma digit_value: "d < 10 \<Longrightarrow> of_char (digit d) = (48 + d :: nat)"
proof -
  assume "d < 10"
  then have "d = 0 \<or> d = 1 \<or> d = 2 \<or> d = 3 \<or> d = 4 \<or> d = 5 \<or> d = 6 \<or> d = 7 \<or> d = 8 \<or> d = 9"
    by arith
  then show "of_char (digit d) = (48 + d :: nat)"
    by (auto simp: digit_def)
qed

lemma digit_not_minus: "d < 10 \<Longrightarrow> digit d \<noteq> CHR ''-''"
proof
  assume d: "d < 10" and e: "digit d = CHR ''-''"
  have "(48 + d :: nat) = of_char (digit d)" using digit_value [OF d] by (rule sym)
  also have "\<dots> = of_char CHR ''-''" by (simp only: e)
  also have "\<dots> = (45 :: nat)" by simp
  finally show False by simp
qed

lemma decimal_value:
  "foldl (\<lambda>a ch. 10 * a + (of_char ch - (48 :: nat))) 0 (decimal n) = n"
proof (induction n rule: decimal.induct)
  case (1 n)
  show ?case
  proof (cases "n < 10")
    case True
    then have "decimal n = [digit n]" by (subst decimal.simps) simp
    with True show ?thesis by (simp add: digit_value)
  next
    case False
    then have d: "decimal n = decimal (n div 10) @ [digit (n mod 10)]"
      by (subst decimal.simps) simp
    have m: "n mod 10 < 10" by simp
    from 1 [OF False]
    have "foldl (\<lambda>a ch. 10 * a + (of_char ch - (48 :: nat))) 0 (decimal n)
        = 10 * (n div 10) + (of_char (digit (n mod 10)) - (48 :: nat))"
      by (simp only: d foldl_append foldl.simps)
    also have "\<dots> = 10 * (n div 10) + n mod 10" by (simp only: digit_value [OF m] add_diff_cancel_left')
    also have "\<dots> = n" by simp
    finally show ?thesis .
  qed
qed

lemma decimal_chars: "ch \<in> set (decimal n) \<Longrightarrow> ch \<noteq> CHR ''-''"
proof (induction n rule: decimal.induct)
  case (1 n)
  show ?case
  proof (cases "n < 10")
    case True
    then have "decimal n = [digit n]" by (subst decimal.simps) simp
    with 1(2) True digit_not_minus [of n] show ?thesis by simp
  next
    case False
    then have d: "decimal n = decimal (n div 10) @ [digit (n mod 10)]"
      by (subst decimal.simps) simp
    have m: "n mod 10 < 10" by simp
    from 1(2) have "ch \<in> set (decimal (n div 10) @ [digit (n mod 10)])" by (simp only: d)
    then have "ch \<in> set (decimal (n div 10)) \<or> ch = digit (n mod 10)" by auto
    then show ?thesis
    proof
      assume "ch \<in> set (decimal (n div 10))"
      then show ?thesis by (rule 1(1) [OF False])
    next
      assume "ch = digit (n mod 10)"
      with digit_not_minus [OF m] show ?thesis by simp
    qed
  qed
qed

lemma zeros_value:
  "foldl (\<lambda>a ch. 10 * a + (of_char ch - (48 :: nat))) 0 (replicate k CHR ''0'') = 0"
  by (induction k) simp_all

lemma zero_pad_value:
  "foldl (\<lambda>a ch. 10 * a + (of_char ch - (48 :: nat))) 0 (zero_pad w (decimal n)) = n"
  by (simp only: zero_pad_def foldl_append zeros_value decimal_value)

lemma zero_pad_hd: "hd (zero_pad w (decimal n)) \<noteq> CHR ''-''"
proof -
  have ne: "zero_pad w (decimal n) \<noteq> []" using decimal_last [of n] by (simp add: zero_pad_def)
  have "\<forall>ch\<in>set (zero_pad w (decimal n)). ch \<noteq> CHR ''-''"
    using decimal_chars [of _ n] by (auto simp: zero_pad_def)
  with ne show ?thesis using hd_in_set by blast
qed

lemma sprintf_09d_inj:
  assumes "sprintf_09d v = sprintf_09d w"
  shows "v = w"
proof -
  have "sint v = sint w"
  proof (cases "sint v < 0")
    case True
    note v = this
    show ?thesis
    proof (cases "sint w < 0")
      case True
      with v assms have "zero_pad 8 (decimal (nat (- sint v))) = zero_pad 8 (decimal (nat (- sint w)))"
        by (simp add: sprintf_09d_def)
      then have "foldl (\<lambda>a ch. 10 * a + (of_char ch - (48 :: nat))) 0 (zero_pad 8 (decimal (nat (- sint v))))
          = foldl (\<lambda>a ch. 10 * a + (of_char ch - (48 :: nat))) 0 (zero_pad 8 (decimal (nat (- sint w))))"
        by (rule arg_cong)
      then have "nat (- sint v) = nat (- sint w)" by (simp only: zero_pad_value)
      with v True show ?thesis by linarith
    next
      case False
      with v assms have "CHR ''-'' # zero_pad 8 (decimal (nat (- sint v)))
          = zero_pad 9 (decimal (nat (sint w)))" by (simp add: sprintf_09d_def)
      then have "hd (zero_pad 9 (decimal (nat (sint w)))) = CHR ''-''"
        by (metis list.sel(1))
      with zero_pad_hd show ?thesis by blast
    qed
  next
    case False
    note v = this
    show ?thesis
    proof (cases "sint w < 0")
      case True
      with v assms have "zero_pad 9 (decimal (nat (sint v)))
          = CHR ''-'' # zero_pad 8 (decimal (nat (- sint w)))" by (simp add: sprintf_09d_def)
      then have "hd (zero_pad 9 (decimal (nat (sint v)))) = CHR ''-''"
        by (metis list.sel(1))
      with zero_pad_hd show ?thesis by blast
    next
      case False
      with v assms have "zero_pad 9 (decimal (nat (sint v))) = zero_pad 9 (decimal (nat (sint w)))"
        by (simp add: sprintf_09d_def)
      then have "foldl (\<lambda>a ch. 10 * a + (of_char ch - (48 :: nat))) 0 (zero_pad 9 (decimal (nat (sint v))))
          = foldl (\<lambda>a ch. 10 * a + (of_char ch - (48 :: nat))) 0 (zero_pad 9 (decimal (nat (sint w))))"
        by (rule arg_cong)
      then have "nat (sint v) = nat (sint w)" by (simp only: zero_pad_value)
      with v False show ?thesis by linarith
    qed
  qed
  then show ?thesis by (rule signed_word_eqI)
qed

lemma counter_moves:
  fixes v :: int64
  assumes "0 < k" and "k < 2 ^ 64"
  shows "v + of_nat k \<noteq> v"
proof
  assume "v + of_nat k = v"
  then have "(of_nat k :: int64) = 0" by simp
  then have "(2 :: nat) ^ 64 dvd k" by (simp add: word_of_nat_eq_0_iff)
  with assms show False by (auto dest: dvd_imp_le)
qed

subsection \<open>Names on collision\<close>

lemma acquire_name:
  assumes "newTensor env c (n # rest) s = Return (t, s')"
  shows "name t = (if n \<in> ExistingTensors s then n @ ''_'' @ sprintf_09d (TensorCount s + 1) else n)"
    and "n \<in> ExistingTensors s'" and "name t \<in> ExistingTensors s'"
    and "TensorCount s' = TensorCount s + 1"
proof -
  note a = newTensor_Return [OF assms]
  show n: "name t = (if n \<in> ExistingTensors s then n @ ''_'' @ sprintf_09d (TensorCount s + 1) else n)"
    using a(7) a(3) by (simp add: newName_def)
  show "name t \<in> ExistingTensors s'" using a(6) by simp
  show "n \<in> ExistingTensors s'" using a(6) n by (cases "n \<in> ExistingTensors s") simp_all
  show "TensorCount s' = TensorCount s + 1" by (rule a(3))
qed

text \<open>
  C4 (as amended). Take two acquires that ask for the same base name \<open>n\<close>, with any
  sequence of acquires and releases between them. Each of the two wrappers is named
  \<open>n\<close> when \<open>n\<close> is not in the registry at its acquire, and \<open>n\<close> followed by \<open>_\<close> and
  \<open>TensorCount\<close> (after its increment by this acquire) in the format \<open>%09d\<close> when \<open>n\<close> is
  in the registry; its name is in the registry after the acquire. When \<open>n\<close> is in the
  registry at the second acquire, the two names differ (fewer than \<open>2 ^ 64\<close> acquires
  lying between). The base name is in the registry at the second acquire whenever no
  wrapper named \<open>n\<close> has been released in between, so always when the second acquire
  follows the first at once.
\<close>

theorem newTensor_collision:
  assumes "newTensor env c1 (n # rest1) s = Return (t1, s1)"
    and "run env xs (s1, objs) = Return (s2, objs2)"
    and "newTensor env c2 (n # rest2) s2 = Return (t2, s3)"
  shows "TensorCount s3 = TensorCount s + of_nat (acquires xs) + 2
     \<and> name t1 = (if n \<in> ExistingTensors s
                  then n @ ''_'' @ sprintf_09d (TensorCount s + 1) else n)
     \<and> name t2 = (if n \<in> ExistingTensors s2
                  then n @ ''_'' @ sprintf_09d (TensorCount s3) else n)
     \<and> name t1 \<in> ExistingTensors s1 \<and> name t2 \<in> ExistingTensors s3
     \<and> (name t1 \<in> ExistingTensors s2 \<longrightarrow> name t1 \<in> ExistingTensors s3)
     \<and> (n \<in> ExistingTensors s2 \<and> acquires xs + 1 < 2 ^ 64 \<longrightarrow> name t1 \<noteq> name t2)
     \<and> ((\<forall>j\<in>set (released xs). j < length objs2 \<longrightarrow> name (objs2 ! j) \<noteq> n)
          \<longrightarrow> n \<in> ExistingTensors s2)
     \<and> (xs = [] \<longrightarrow> n \<in> ExistingTensors s2 \<and> name t1 \<in> ExistingTensors s3
            \<and> name t1 \<noteq> name t2 \<and> TensorCount s3 = TensorCount s + 2)"
proof -
  note a = acquire_name [OF assms(1)] and b = acquire_name [OF assms(3)]
  note r = run_summary [OF assms(2)]
  note c = newTensor_Return(6) [OF assms(3)]
  from r have tc: "TensorCount s2 = TensorCount s1 + of_nat (acquires xs)" by blast
  have k3: "TensorCount s3 = TensorCount s + of_nat (acquires xs) + 2"
    using a(4) b(4) tc by simp
  have k31: "TensorCount s3 = (TensorCount s + 1) + of_nat (acquires xs + 1)"
    using k3 by simp
  have n2: "name t2 = (if n \<in> ExistingTensors s2
                  then n @ ''_'' @ sprintf_09d (TensorCount s3) else n)"
    using b(1) b(4) by simp
  have keep: "name t1 \<in> ExistingTensors s2 \<longrightarrow> name t1 \<in> ExistingTensors s3"
    using c by simp
  have diff: "name t1 \<noteq> name t2" if h: "n \<in> ExistingTensors s2" "acquires xs + 1 < 2 ^ 64"
  proof (cases "n \<in> ExistingTensors s")
    case False
    with a(1) n2 h(1) show ?thesis by simp
  next
    case True
    have "TensorCount s3 \<noteq> TensorCount s + 1"
      unfolding k31 by (rule counter_moves [OF _ h(2)]) simp
    then have "sprintf_09d (TensorCount s + 1) \<noteq> sprintf_09d (TensorCount s3)"
      using sprintf_09d_inj [of "TensorCount s + 1" "TensorCount s3"] by auto
    with True a(1) n2 h(1) show ?thesis by simp
  qed
  have stays: "n \<in> ExistingTensors s2"
    if "\<forall>j\<in>set (released xs). j < length objs2 \<longrightarrow> name (objs2 ! j) \<noteq> n"
    using run_keeps_entry [OF assms(2) a(2) that] .
  have "n \<in> ExistingTensors s2 \<and> name t1 \<in> ExistingTensors s3
            \<and> name t1 \<noteq> name t2 \<and> TensorCount s3 = TensorCount s + 2" if e: "xs = []"
  proof -
    from e assms(2) have s: "s2 = s1" by simp
    from e have n: "n \<in> ExistingTensors s2" using stays by simp
    have one: "acquires xs + 1 < 2 ^ 64" using e by simp
    from diff [OF n one] n a(3) s keep k3 e show ?thesis by simp
  qed
  with k3 a(1) n2 a(3) b(3) keep diff stays show ?thesis by blast
qed


theorem newTensor_collision_witness:
  "newTensor quiet_env 7 [''a''] init_state = Return (tensor_a, state_a)
   \<and> run quiet_env [Acquire 9 [''b'']] (state_a, [tensor_a])
       = Return (state_a\<lparr>TensorCount := 2, ExistingTensors := {''a'', ''b''}\<rparr>,
           [tensor_a, \<lparr>name = ''b'', ctensor = 9, calledFrom = ''newTensor()''\<rparr>])
   \<and> newTensor quiet_env 8 [''a''] (state_a\<lparr>TensorCount := 2, ExistingTensors := {''a'', ''b''}\<rparr>)
       = Return (\<lparr>name = ''a_000000003'', ctensor = 8, calledFrom = ''newTensor()''\<rparr>,
           state_a\<lparr>TensorCount := 3, ExistingTensors := {''a'', ''b'', ''a_000000003''}\<rparr>)
   \<and> ''a'' \<in> ExistingTensors (state_a\<lparr>TensorCount := 2, ExistingTensors := {''a'', ''b''}\<rparr>)
   \<and> acquires [Acquire 9 [''b'']] + 1 < 2 ^ 64
   \<and> released [Acquire 9 [''b'']] = []
   \<and> name tensor_a \<noteq> ''a_000000003''
   \<and> ''a_000000003'' = ''a'' @ ''_'' @ sprintf_09d 3
   \<and> name tensor_a \<in> ExistingTensors
        (state_a\<lparr>TensorCount := 3, ExistingTensors := {''a'', ''b'', ''a_000000003''}\<rparr>)
   \<and> TensorCount (state_a\<lparr>TensorCount := 3, ExistingTensors := {''a'', ''b'', ''a_000000003''}\<rparr>)
        = TensorCount init_state + 3"
proof -
  let ?xs = "[Acquire 9 [''b'']]"
  let ?s2 = "state_a\<lparr>TensorCount := 2, ExistingTensors := {''a'', ''b''}\<rparr>"
  let ?t2 = "\<lparr>name = ''a_000000003'', ctensor = 8, calledFrom = ''newTensor()''\<rparr>"
  let ?s3 = "state_a\<lparr>TensorCount := 3, ExistingTensors := {''a'', ''b'', ''a_000000003''}\<rparr>"
  have z: "replicate 8 CHR ''0'' = ''00000000''" by (simp add: eval_nat_numeral)
  have f: "sprintf_09d 3 = ''000000003''"
    by (simp add: sprintf_09d_def zero_pad_def decimal.simps digit_def z)
  have a: "newTensor quiet_env 7 [''a''] init_state = Return (tensor_a, state_a)"
    by (simp add: newTensor_def quiet_env_def init_state_def tensor_a_def state_a_def Lock_def
        Unlock_def newName_def Let_def)
  have r: "run quiet_env ?xs (state_a, [tensor_a])
       = Return (?s2, [tensor_a, \<lparr>name = ''b'', ctensor = 9, calledFrom = ''newTensor()''\<rparr>])"
    by (auto simp add: newTensor_def quiet_env_def tensor_a_def state_a_def Lock_def
        Unlock_def newName_def Let_def)
  have b: "newTensor quiet_env 8 [''a''] ?s2 = Return (?t2, ?s3)"
    by (auto simp add: newTensor_def quiet_env_def state_a_def Lock_def
        Unlock_def newName_def Let_def f)
  have h1: "''a'' \<in> ExistingTensors ?s2" by simp
  have h2: "acquires ?xs + 1 < 2 ^ 64" by simp
  have h3: "released ?xs = []" by simp
  note t = newTensor_collision [OF a r b]
  from t h1 h2 have "name tensor_a \<noteq> name ?t2" by blast
  then have 1: "name tensor_a \<noteq> ''a_000000003''" by simp
  from t h1 have "name ?t2 = ''a'' @ ''_'' @ sprintf_09d (TensorCount ?s3)" by simp
  then have 2: "''a_000000003'' = ''a'' @ ''_'' @ sprintf_09d 3" by simp
  have "name tensor_a \<in> ExistingTensors ?s2" by (simp add: tensor_a_def)
  with t have 3: "name tensor_a \<in> ExistingTensors ?s3" by blast
  from t have "TensorCount ?s3 = TensorCount init_state + of_nat (acquires ?xs) + 2" by blast
  then have 4: "TensorCount ?s3 = TensorCount init_state + 3" by simp
  from a r b h1 h2 h3 1 2 3 4 show ?thesis by (intro conjI)
qed

text \<open>
  C4 as stated fails when something comes between the two acquires. In the first run
  the two acquires ask for \<open>"a"\<close> and the second wrapper is named plain \<open>"a"\<close>, the name
  of the first: the release in between has removed the entry. In the second run the
  wrappers of handles 2 and 4 both ask for \<open>"x_000000003"\<close> and both live under that one
  name: the third acquire was given the name by disambiguation without a second look at
  the registry, and its release removed the entry.
\<close>

theorem newTensor_collision_counterexample:
  "run quiet_env [Acquire 7 [''a''], Release 0, Acquire 8 [''a'']] (init_state, [])
     = Return (\<lparr>TensorCount = 2, AllocatedMem = 0, ExistingTensors = {''a''}, lock = False,
                logged = [], calls = [CallAtFree 7]\<rparr>,
               [\<lparr>name = ''a'', ctensor = 0, calledFrom = ''newTensor()''\<rparr>,
                \<lparr>name = ''a'', ctensor = 8, calledFrom = ''newTensor()''\<rparr>])
   \<and> run quiet_env [Acquire 1 [''x''], Acquire 2 [''x_000000003''], Acquire 3 [''x''],
                     Release 2, Acquire 4 [''x_000000003'']] (init_state, [])
     = Return (\<lparr>TensorCount = 4, AllocatedMem = 0,
                ExistingTensors = {''x_000000003'', ''x''}, lock = False,
                logged = [], calls = [CallAtFree 3]\<rparr>,
               [\<lparr>name = ''x'', ctensor = 1, calledFrom = ''newTensor()''\<rparr>,
                \<lparr>name = ''x_000000003'', ctensor = 2, calledFrom = ''newTensor()''\<rparr>,
                \<lparr>name = ''x_000000003'', ctensor = 0, calledFrom = ''newTensor()''\<rparr>,
                \<lparr>name = ''x_000000003'', ctensor = 4, calledFrom = ''newTensor()''\<rparr>])"
proof -
  have z: "replicate 8 CHR ''0'' = ''00000000''" by (simp add: eval_nat_numeral)
  have f: "sprintf_09d 3 = ''000000003''"
    by (simp add: sprintf_09d_def zero_pad_def decimal.simps digit_def z)
  have r1: "run quiet_env [Acquire 7 [''a''], Release 0, Acquire 8 [''a'']] (init_state, [])
     = Return (\<lparr>TensorCount = 2, AllocatedMem = 0, ExistingTensors = {''a''}, lock = False,
                logged = [], calls = [CallAtFree 7]\<rparr>,
               [\<lparr>name = ''a'', ctensor = 0, calledFrom = ''newTensor()''\<rparr>,
                \<lparr>name = ''a'', ctensor = 8, calledFrom = ''newTensor()''\<rparr>])"
    by (auto simp add: init_state_def quiet_env_def nil_def Lock_def Unlock_def
        freeCTensor_locked_def debug_release_def call_def newTensor_def newName_def Let_def
        pointer_def store_def)
  have r2: "run quiet_env [Acquire 1 [''x''], Acquire 2 [''x_000000003''], Acquire 3 [''x''],
                     Release 2, Acquire 4 [''x_000000003'']] (init_state, [])
     = Return (\<lparr>TensorCount = 4, AllocatedMem = 0,
                ExistingTensors = {''x_000000003'', ''x''}, lock = False,
                logged = [], calls = [CallAtFree 3]\<rparr>,
               [\<lparr>name = ''x'', ctensor = 1, calledFrom = ''newTensor()''\<rparr>,
                \<lparr>name = ''x_000000003'', ctensor = 2, calledFrom = ''newTensor()''\<rparr>,
                \<lparr>name = ''x_000000003'', ctensor = 0, calledFrom = ''newTensor()''\<rparr>,
                \<lparr>name = ''x_000000003'', ctensor = 4, calledFrom = ''newTensor()''\<rparr>])"
    by (auto simp add: init_state_def quiet_env_def nil_def Lock_def Unlock_def
        freeCTensor_locked_def debug_release_def call_def newTensor_def newName_def Let_def
        pointer_def store_def f)
  from r1 r2 show ?thesis by (intro conjI)
qed

subsection \<open>The byte estimates of debug mode\<close>















subsection \<open>Matched acquires and releases: the report\<close>












end
